theory Spec2Isabelle
  imports Complex_Main "HOL-Library.Word" "HOL-Library.AList"
begin

section \<open>Basic types\<close>

text \<open>
  Identifiers and keypoint indices are \<^verbatim>\<open>size_t\<close> / \<^verbatim>\<open>unsigned long\<close>: 64-bit words,
  on which \<open>+\<close> wraps.  A \<^verbatim>\<open>double\<close> is read as a real number (the code only copies and
  compares the distances and residuals it receives; no NaN is modelled).  Eigen vectors
  are tuples of reals; a rigid transform is a unit quaternion with a translation, and is
  only ever copied.
\<close>

type_synonym size_t = "64 word"
type_synonym Vector2d = "real \<times> real"
type_synonym Vector3d = "real \<times> real \<times> real"

datatype SE3 = SE3 (so3: "real \<times> real \<times> real \<times> real") (translation: Vector3d)

text \<open>
  A \<^verbatim>\<open>shared_ptr\<close> is an address; the null pointer is \<open>None\<close>.  A non-null shared pointer
  always refers to a live object, so each kind of object has a total store from addresses
  to objects.
\<close>

type_synonym frame_ptr = nat
type_synonym mpt_ptr = nat

section \<open>mappoint.cpp: class MapPoint and its id counter\<close>

record MapPoint =
  mp_id :: size_t
  mp_pos :: Vector3d
  mp_norm :: Vector3d
  mp_good :: bool
  mp_visible_times :: int
  mp_matched_times :: int
  mp_descriptor :: "nat list"
  mp_observed_frames :: "frame_ptr option list"
  mp_observed_pixel_pos :: "Vector2d list"

text \<open>\<^verbatim>\<open>MapPoint::MapPoint()\<close>: \<^verbatim>\<open>id_(-1)\<close>, which in an unsigned long is \<open>2^64 - 1\<close>.\<close>

definition MapPoint_default :: MapPoint where
  "MapPoint_default =
     \<lparr>mp_id = - 1, mp_pos = (0, 0, 0), mp_norm = (0, 0, 0), mp_good = False,
      mp_visible_times = 0, mp_matched_times = 0, mp_descriptor = [],
      mp_observed_frames = [], mp_observed_pixel_pos = []\<rparr>"

text \<open>\<^verbatim>\<open>MapPoint::MapPoint(id, position, norm, pixel_pos, frame, descriptor)\<close>.\<close>

definition MapPoint_ctor ::
  "size_t \<Rightarrow> Vector3d \<Rightarrow> Vector3d \<Rightarrow> Vector2d \<Rightarrow> frame_ptr option \<Rightarrow> nat list \<Rightarrow> MapPoint" where
  "MapPoint_ctor i position nrm pixel_pos frame descriptor =
     \<lparr>mp_id = i, mp_pos = position, mp_norm = nrm, mp_good = False,
      mp_visible_times = 1, mp_matched_times = 1, mp_descriptor = descriptor,
      mp_observed_frames = [frame], mp_observed_pixel_pos = [pixel_pos]\<rparr>"

text \<open>
  The two factory overloads.  The static counter \<^verbatim>\<open>factory_id_\<close> is threaded through:
  each call returns the new mappoint and the incremented counter
  (\<^verbatim>\<open>factory_id_++\<close> yields the old value).  The zero-argument overload passes four
  arguments to the constructor; the frame and the descriptor take the defaults of the
  declaration (null and the empty matrix).
\<close>

definition createMapPoint0 :: "size_t \<Rightarrow> MapPoint \<times> size_t" where
  "createMapPoint0 factory_id =
     (MapPoint_ctor factory_id (0, 0, 0) (0, 0, 0) (0, 0) None [], factory_id + 1)"

definition createMapPoint ::
  "Vector3d \<Rightarrow> Vector3d \<Rightarrow> Vector2d \<Rightarrow> nat list \<Rightarrow> frame_ptr option \<Rightarrow> size_t \<Rightarrow> MapPoint \<times> size_t" where
  "createMapPoint pos_world nrm pixel_pos descriptor frame factory_id =
     (MapPoint_ctor factory_id pos_world nrm pixel_pos frame descriptor, factory_id + 1)"

text \<open>A run of factory calls, in order, starting from a counter value.\<close>

datatype factory_call =
  CreateEmpty
  | Create Vector3d Vector3d Vector2d "nat list" "frame_ptr option"

fun factory_step :: "factory_call \<Rightarrow> size_t \<Rightarrow> MapPoint \<times> size_t" where
  "factory_step CreateEmpty c = createMapPoint0 c"
| "factory_step (Create p n px d f) c = createMapPoint p n px d f c"

fun factory_run :: "factory_call list \<Rightarrow> size_t \<Rightarrow> MapPoint list \<times> size_t" where
  "factory_run [] c = ([], c)"
| "factory_run (k # ks) c =
     (let (m, c') = factory_step k c; (ms, c'') = factory_run ks c' in (m # ms, c''))"

section \<open>Keyframes, mappoints and the objects of the optimizer\<close>

text \<open>
  \<^verbatim>\<open>Frame\<close> after frame.h (\<^verbatim>\<open>id_\<close>, \<^verbatim>\<open>timestamp_\<close>, \<^verbatim>\<open>T_c_w_\<close>,
  \<^verbatim>\<open>covisibleKeyframeIdToWeight_\<close>); a trailing underscore is not a legal name here and is
  dropped.  backend.cpp calls a newer interface than the header in the repository declares
  (keypoints, observations keyed by keypoint index); those two fields follow the data model
  of the specification: \<open>keypoints\<close> is the ordered sequence of 2D feature points and
  \<open>observedMappoints\<close> maps a keypoint index to a mappoint id.  The image payload and the
  camera are never read by the code below and are left out.
\<close>

record Frame =
  f_id :: size_t
  f_timestamp :: real
  f_T_c_w :: SE3
  f_keypoints :: "Vector2d list"
  f_observedMappoints :: "(size_t \<times> size_t) list"
  f_covisibleKeyframeIdToWeight :: "(size_t \<times> int) list"

text \<open>
  \<^verbatim>\<open>Mappoint\<close> (the class backend.cpp uses; its sources are not among the files
  verified here): the fields the backend reads and writes, \<open>observedByKeyframes\<close> mapping a
  keyframe id to the keypoint index within that keyframe.
\<close>

record Mappoint =
  m_id :: size_t
  m_position :: Vector3d
  m_outlier :: bool
  m_triangulated :: bool
  m_optimized :: bool
  m_observedByKeyframes :: "(size_t \<times> size_t) list"

record VertexPose =
  vp_id :: nat
  vp_estimate :: SE3
  vp_fixed :: bool

record VertexMappoint =
  vm_id :: nat
  vm_estimate :: Vector3d
  vm_marginalized :: bool

text \<open>
  A projection edge.  \<open>e_robustKernel\<close> is the Huber kernel's delta, \<open>None\<close> once cleared
  by \<^verbatim>\<open>setRobustKernel(0)\<close>; \<open>e_chi2\<close> is the residual that \<^verbatim>\<open>computeError()\<close> last
  stored and \<^verbatim>\<open>chi2()\<close> reads.
\<close>

record BinaryEdgeProjection =
  e_id :: nat
  e_vertex0 :: nat
  e_vertex1 :: nat
  e_measurement :: Vector2d
  e_information :: "(real \<times> real) \<times> (real \<times> real)"
  e_robustKernel :: "real option"
  e_level :: int
  e_chi2 :: real

text \<open>The objects behind the pointers: one total store per kind of object.\<close>

record store =
  frames :: "frame_ptr \<Rightarrow> Frame"
  mappoints :: "mpt_ptr \<Rightarrow> Mappoint"
  poseVertices :: "nat \<Rightarrow> VertexPose"
  mptVertices :: "nat \<Rightarrow> VertexMappoint"
  edges :: "nat \<Rightarrow> BinaryEdgeProjection"

datatype error = NullPointerDereference | IndexOutOfRange

section \<open>The Map Manager\<close>

text \<open>
  Modelled from the spec: \<^verbatim>\<open>MapManager\<close> is not among the files verified here.  It is
  the process-wide registry of the keyframes and of the mappoints, by id.  An
  \<^verbatim>\<open>unordered_map\<close> is an association list read by \<open>map_of\<close>; the order of the list is
  the order of iteration.
\<close>

record MapManager =
  mm_keyframes :: "(size_t \<times> frame_ptr) list"
  mm_mappoints :: "(size_t \<times> mpt_ptr) list"

text \<open>Modelled from the spec: \<open>get_keyframe(id)\<close> "returns a shared reference or none".\<close>

definition GetKeyframe :: "MapManager \<Rightarrow> size_t \<Rightarrow> frame_ptr option" where
  "GetKeyframe mm i = map_of (mm_keyframes mm) i"

text \<open>Modelled from the spec: \<open>get_mappoint(id)\<close> "returns a shared reference or none".\<close>

definition GetMappoint :: "MapManager \<Rightarrow> size_t \<Rightarrow> mpt_ptr option" where
  "GetMappoint mm i = map_of (mm_mappoints mm) i"

text \<open>Modelled from the spec: \<open>get_all_mappoints()\<close> is a snapshot of the registry of
  mappoints.\<close>

definition GetAllMappoints :: "MapManager \<Rightarrow> (size_t \<times> mpt_ptr) list" where
  "GetAllMappoints mm = mm_mappoints mm"

section \<open>Frame operations the backend calls\<close>

text \<open>
  The bodies of the member functions below are not among the files verified here; each is
  read off the data model of the specification.
\<close>

text \<open>Modelled from the spec: \<^verbatim>\<open>GetAllCovisibleKfIds\<close> lists the keys of the covisibility
  map ("mapping from other keyframe id to integer weight").\<close>

definition GetAllCovisibleKfIds :: "Frame \<Rightarrow> size_t list" where
  "GetAllCovisibleKfIds f = map fst (f_covisibleKeyframeIdToWeight f)"

text \<open>Modelled from the spec: \<^verbatim>\<open>GetObservingMappointIds\<close> lists the mappoint ids of the
  observations ("mapping from keypoint index to mappoint id").\<close>

definition GetObservingMappointIds :: "Frame \<Rightarrow> size_t list" where
  "GetObservingMappointIds f = map snd (f_observedMappoints f)"

text \<open>Modelled from the spec: \<^verbatim>\<open>IsKeypointMatchWithMappoint(kptIdx, oldMptId)\<close> looks the
  keypoint index up in the observations; the out-parameter is the mappoint id found.\<close>

definition IsKeypointMatchWithMappoint :: "Frame \<Rightarrow> size_t \<Rightarrow> size_t option" where
  "IsKeypointMatchWithMappoint f kptIdx = map_of (f_observedMappoints f) kptIdx"

text \<open>Modelled from the spec: \<^verbatim>\<open>GetKeypoint(kptIdx)\<close> reads the ordered sequence of
  keypoints; a read past its end is an error value.\<close>

definition GetKeypoint :: "Frame \<Rightarrow> size_t \<Rightarrow> error + Vector2d" where
  "GetKeypoint f kptIdx =
     (if unat kptIdx < length (f_keypoints f) then Inr (f_keypoints f ! unat kptIdx)
      else Inl IndexOutOfRange)"

text \<open>Modelled from the spec: \<^verbatim>\<open>SetTcw\<close> (\<open>set_pose\<close>) stores the pose, as \<^verbatim>\<open>SetPose\<close> of
  frame.h does (\<^verbatim>\<open>T_c_w_ = move(pose)\<close>).\<close>

definition SetTcw :: "frame_ptr \<Rightarrow> SE3 \<Rightarrow> store \<Rightarrow> store" where
  "SetTcw kf pose h = h\<lparr>frames := (frames h)(kf := (frames h kf)\<lparr>f_T_c_w := pose\<rparr>)\<rparr>"

text \<open>Modelled from the spec: \<^verbatim>\<open>Mappoint::SetPosition\<close> (\<open>set_position\<close>) stores the
  position.\<close>

definition SetPosition :: "mpt_ptr \<Rightarrow> Vector3d \<Rightarrow> store \<Rightarrow> store" where
  "SetPosition mpt p h = h\<lparr>mappoints := (mappoints h)(mpt := (mappoints h mpt)\<lparr>m_position := p\<rparr>)\<rparr>"

text \<open>
  Modelled from the spec: \<^verbatim>\<open>Frame::RemoveObservedMappoint(id)\<close> is declared in frame.h and
  defined in a file not verified here.  It removes the observation of that mappoint from the
  keyframe and, as the mirror, the keyframe from the mappoint's observers (the mappoint
  is resolved by id through the Map Manager); a mappoint left with zero observations is
  marked outlier.  The decrement of covisibility weights that the specification also lists
  is not modelled: nothing below reads a covisibility weight after a removal.
\<close>

definition RemoveObservedMappoint :: "MapManager \<Rightarrow> frame_ptr \<Rightarrow> size_t \<Rightarrow> store \<Rightarrow> store" where
  "RemoveObservedMappoint mm kf mptId h =
     (let f = frames h kf;
          h1 = h\<lparr>frames := (frames h)(kf := f\<lparr>f_observedMappoints :=
                  filter (\<lambda>(kptIdx, i). i \<noteq> mptId) (f_observedMappoints f)\<rparr>)\<rparr>
      in case GetMappoint mm mptId of
           None \<Rightarrow> h1
         | Some mpt \<Rightarrow>
             (let m = mappoints h1 mpt;
                  obs = filter (\<lambda>(kfId, kptIdx). kfId \<noteq> f_id f) (m_observedByKeyframes m)
              in h1\<lparr>mappoints := (mappoints h1)(mpt :=
                     m\<lparr>m_observedByKeyframes := obs, m_outlier := (m_outlier m \<or> obs = [])\<rparr>)\<rparr>))"

section \<open>backend.cpp: the backend's state\<close>

text \<open>
  The optimizer owns the vertices and edges added to it: the lists of their addresses.
  A vertex or an edge made by \<^verbatim>\<open>new\<close> is stored at the address given by its own id
  (\<^verbatim>\<open>++vertexIndex\<close>, \<^verbatim>\<open>++edgeIndex\<close>), which is fresh within one round.
\<close>

record SparseOptimizer =
  o_poseVertices :: "nat list"
  o_mptVertices :: "nat list"
  o_edges :: "nat list"

record Backend =
  keyframeCurr :: "frame_ptr option"
  oldMptIdKptIdxMap :: "(size_t \<times> size_t) list"
  newMptKptIdxMap :: "(mpt_ptr \<times> size_t) list"
  kfIdToCovKfThenVertex :: "(size_t \<times> frame_ptr \<times> nat) list"
  mptIdToMptThenVertex :: "(size_t \<times> mpt_ptr \<times> nat) list"
  kfIdToFixedKfThenVertex :: "(size_t \<times> frame_ptr \<times> nat) list"
  edgeToKfThenMpt :: "(nat \<times> frame_ptr \<times> mpt_ptr) list"
  chi2Threshold :: real
  reMatchDescriptorDistance :: real
  optimizer :: SparseOptimizer

text \<open>
  Lines 7-17, the constructor: the two thresholds come from the configuration
  (\<^verbatim>\<open>chi2_th\<close>, \<^verbatim>\<open>re_match_descriptor_distance\<close>); every container starts empty and
  no keyframe is pending.
\<close>

definition Backend_init :: "real \<Rightarrow> real \<Rightarrow> Backend" where
  "Backend_init chi2_th re_match =
     \<lparr>keyframeCurr = None, oldMptIdKptIdxMap = [], newMptKptIdxMap = [],
      kfIdToCovKfThenVertex = [], mptIdToMptThenVertex = [], kfIdToFixedKfThenVertex = [],
      edgeToKfThenMpt = [], chi2Threshold = chi2_th, reMatchDescriptorDistance = re_match,
      optimizer = \<lparr>o_poseVertices = [], o_mptVertices = [], o_edges = []\<rparr>\<rparr>"

subsection \<open>ProcessNewKeyframeAsync\<close>

text \<open>
  \<^verbatim>\<open>unordered_map::insert(first, last)\<close>: the entries are inserted one by one, and an entry
  whose key is already present is not inserted.
\<close>

definition insert_range :: "('k \<times> 'v) list \<Rightarrow> ('k \<times> 'v) list \<Rightarrow> ('k \<times> 'v) list" where
  "insert_range src dst =
     fold (\<lambda>(k, v) m. if map_of m k \<noteq> None then m else m @ [(k, v)]) src dst"

text \<open>
  Lines 27-40.  Each pending map is cleared and filled from the argument.  The lock and
  the notification of the worker are not part of the state.
\<close>

definition ProcessNewKeyframeAsync ::
  "frame_ptr option \<Rightarrow> (size_t \<times> size_t) list \<Rightarrow> (mpt_ptr \<times> size_t) list \<Rightarrow> Backend \<Rightarrow> Backend" where
  "ProcessNewKeyframeAsync keyframe oldMap newMap b =
     b\<lparr>keyframeCurr := keyframe,
       oldMptIdKptIdxMap := insert_range oldMap [],
       newMptKptIdxMap := insert_range newMap []\<rparr>"

subsection \<open>AddNewMappointsToExistingKeyframe: the candidate keyframes\<close>

text \<open>\<^verbatim>\<open>unordered_set::insert\<close>: an element already present is not inserted again.\<close>

definition set_insert :: "'a \<Rightarrow> 'a list \<Rightarrow> 'a list" where
  "set_insert x xs = (if x \<in> set xs then xs else xs @ [x])"

text \<open>
  Lines 89-95, the inner loop over the covisible ids of \<^verbatim>\<open>kf\<close>.  The loop variable is
  \<^verbatim>\<open>neighborKfId\<close>, but the lookup of line 90 is \<^verbatim>\<open>GetKeyframe(kfId)\<close>, the id of the outer
  loop: the loop variable is not used.
\<close>

definition neighbor_loop ::
  "MapManager \<Rightarrow> size_t \<Rightarrow> size_t list \<Rightarrow> frame_ptr list \<Rightarrow> frame_ptr list" where
  "neighbor_loop mm kfId neighborKfIds covisibleKfs =
     fold (\<lambda>neighborKfId acc.
             case GetKeyframe mm kfId of
               None \<Rightarrow> acc
             | Some neighborKf \<Rightarrow> set_insert neighborKf acc)
          neighborKfIds covisibleKfs"

text \<open>Lines 83-96, the outer loop over the covisible ids of the current keyframe.\<close>

definition covisible_loop ::
  "MapManager \<Rightarrow> store \<Rightarrow> size_t list \<Rightarrow> frame_ptr list" where
  "covisible_loop mm h covisibleKfIds =
     fold (\<lambda>kfId acc.
             case GetKeyframe mm kfId of
               None \<Rightarrow> acc
             | Some kf \<Rightarrow>
                 neighbor_loop mm kfId (GetAllCovisibleKfIds (frames h kf)) (set_insert kf acc))
          covisibleKfIds []"

text \<open>Lines 81-99: the set \<^verbatim>\<open>covisibleKfs\<close> once the current keyframe is erased from it.\<close>

definition candidate_keyframes :: "MapManager \<Rightarrow> Backend \<Rightarrow> store \<Rightarrow> error + frame_ptr list" where
  "candidate_keyframes mm b h =
     (case keyframeCurr b of
        None \<Rightarrow> Inl NullPointerDereference
      | Some cur \<Rightarrow>
          (let covisibleKfIds = GetAllCovisibleKfIds (frames h cur);
               covisibleKfs = covisible_loop mm h covisibleKfIds
           in Inr (if cur \<in> set covisibleKfs then removeAll cur covisibleKfs
                   else covisibleKfs)))"

subsection \<open>AddNewMappointsToExistingKeyframe: collecting matches\<close>

text \<open>
  \<^verbatim>\<open>Frame::GetMatchedKeypoint(mpt, kptIdx, distance, mayObserveMpt)\<close> is descriptor
  matching, defined in a file not verified here: a parameter.  \<open>None\<close> is the return
  value false; otherwise the three out-parameters.
\<close>

type_synonym matcher = "store \<Rightarrow> frame_ptr \<Rightarrow> mpt_ptr \<Rightarrow> (size_t \<times> real \<times> bool) option"

text \<open>
  Lines 124-128 and 131-135 are the same pattern on two maps: if the key has an entry and
  \<^verbatim>\<open>distance >= \<close> that entry's distance, \<^verbatim>\<open>continue\<close>; otherwise assign the new pair.
\<close>

definition keep_or_assign :: "'k \<Rightarrow> 'v \<Rightarrow> real \<Rightarrow> ('k \<times> 'v \<times> real) list \<Rightarrow> ('k \<times> 'v \<times> real) list" where
  "keep_or_assign k v distance m =
     (case map_of m k of
        Some (v', d') \<Rightarrow> if distance \<ge> d' then m else AList.update k (v, distance) m
      | None \<Rightarrow> AList.update k (v, distance) m)"

text \<open>Lines 116-137, the body of the loop over the new mappoints, for one keyframe.\<close>

definition fuse_mpt ::
  "matcher \<Rightarrow> real \<Rightarrow> store \<Rightarrow> frame_ptr \<Rightarrow> mpt_ptr \<Rightarrow>
   (size_t \<times> size_t \<times> real) list \<times> (size_t \<times> mpt_ptr \<times> real) list \<Rightarrow>
   (size_t \<times> size_t \<times> real) list \<times> (size_t \<times> mpt_ptr \<times> real) list" where
  "fuse_mpt GetMatchedKeypoint reMatch h kf mpt maps =
     (case maps of (oldMptIdToNewMptIdAndDistance, kptIdxToMptAndDistance) \<Rightarrow>
        (case GetMatchedKeypoint h kf mpt of
           None \<Rightarrow> maps
         | Some (kptIdx, distance, mayObserveMpt) \<Rightarrow>
             if distance > reMatch then maps
             else
               (case IsKeypointMatchWithMappoint (frames h kf) kptIdx of
                  Some oldMptId \<Rightarrow>
                    (keep_or_assign oldMptId (m_id (mappoints h mpt)) distance
                       oldMptIdToNewMptIdAndDistance,
                     kptIdxToMptAndDistance)
                | None \<Rightarrow>
                    (oldMptIdToNewMptIdAndDistance,
                     keep_or_assign kptIdx mpt distance kptIdxToMptAndDistance))))"

text \<open>
  Lines 113-143, the body of the loop over the candidate keyframes: the per-keyframe map
  is cleared, the new mappoints are swept, and the matches of empty keypoints are
  appended to \<^verbatim>\<open>observationsToAdd\<close>.
\<close>

definition fuse_keyframe ::
  "matcher \<Rightarrow> real \<Rightarrow> store \<Rightarrow> mpt_ptr list \<Rightarrow> frame_ptr \<Rightarrow>
   (size_t \<times> size_t \<times> real) list \<times> (frame_ptr \<times> mpt_ptr \<times> size_t) list \<Rightarrow>
   (size_t \<times> size_t \<times> real) list \<times> (frame_ptr \<times> mpt_ptr \<times> size_t) list" where
  "fuse_keyframe GetMatchedKeypoint reMatch h newMpts kf acc =
     (case acc of (oldMptIdToNewMptIdAndDistance, observationsToAdd) \<Rightarrow>
        (case fold (fuse_mpt GetMatchedKeypoint reMatch h kf) newMpts
                (oldMptIdToNewMptIdAndDistance, []) of
           (oldMptIdToNewMptIdAndDistance', kptIdxToMptAndDistance) \<Rightarrow>
             (oldMptIdToNewMptIdAndDistance',
              observationsToAdd @
                map (\<lambda>(kptIdx, mpt, distance). (kf, mpt, kptIdx)) kptIdxToMptAndDistance)))"

text \<open>
  Lines 101-143: the replacement candidates and the observations to add, collected over
  all candidate keyframes.  (The commit of lines 145-159 calls \<^verbatim>\<open>AddObservingMappoint\<close>,
  \<^verbatim>\<open>ReplaceMappoint\<close> and \<^verbatim>\<open>CalculateMappointDescriptor\<close>, which are defined in files
  not verified here.)
\<close>

definition fuse_collect ::
  "matcher \<Rightarrow> Backend \<Rightarrow> store \<Rightarrow> frame_ptr list \<Rightarrow>
   (size_t \<times> size_t \<times> real) list \<times> (frame_ptr \<times> mpt_ptr \<times> size_t) list" where
  "fuse_collect GetMatchedKeypoint b h covisibleKfs =
     fold (fuse_keyframe GetMatchedKeypoint (reMatchDescriptorDistance b) h
             (map fst (newMptKptIdxMap b)))
          covisibleKfs ([], [])"

subsection \<open>OptimizeLocalMap: vertices\<close>

text \<open>
  The state of the loops: the backend, the store and \<^verbatim>\<open>vertexIndex\<close> (a C++ \<^verbatim>\<open>int\<close> that
  starts at 0 and is only incremented).
\<close>

text \<open>Lines 194-216, the body of the loop over the mappoint ids a keyframe observes.\<close>

definition mappoint_vertex_step ::
  "MapManager \<Rightarrow> size_t \<Rightarrow> Backend \<times> store \<times> nat \<Rightarrow> Backend \<times> store \<times> nat" where
  "mappoint_vertex_step mm mptId st =
     (case st of (b, h, vertexIndex) \<Rightarrow>
        if map_of (mptIdToMptThenVertex b) mptId \<noteq> None then st
        else
          (case GetMappoint mm mptId of
             None \<Rightarrow> st
           | Some mpt \<Rightarrow>
               if m_outlier (mappoints h mpt) then st
               else
                 (let v = vertexIndex + 1;
                      mptVertex = \<lparr>vm_id = v, vm_estimate = m_position (mappoints h mpt),
                                   vm_marginalized = True\<rparr>;
                      h' = h\<lparr>mptVertices := (mptVertices h)(v := mptVertex)\<rparr>;
                      b' = b\<lparr>optimizer := (optimizer b)
                               \<lparr>o_mptVertices := o_mptVertices (optimizer b) @ [v]\<rparr>,
                             mptIdToMptThenVertex :=
                               AList.update mptId (mpt, v) (mptIdToMptThenVertex b)\<rparr>
                  in (b', h', v))))"

text \<open>Lines 174-217, the body of the loop over the covisible keyframe ids.\<close>

definition keyframe_vertex_step ::
  "MapManager \<Rightarrow> size_t \<Rightarrow> Backend \<times> store \<times> nat \<Rightarrow> Backend \<times> store \<times> nat" where
  "keyframe_vertex_step mm kfId st =
     (case st of (b, h, vertexIndex) \<Rightarrow>
        (case GetKeyframe mm kfId of
           None \<Rightarrow> st
         | Some kf \<Rightarrow>
             (let v = vertexIndex + 1;
                  poseVertex = \<lparr>vp_id = v, vp_estimate = f_T_c_w (frames h kf),
                                vp_fixed = (f_id (frames h kf) = 0)\<rparr>;
                  h' = h\<lparr>poseVertices := (poseVertices h)(v := poseVertex)\<rparr>;
                  b' = b\<lparr>optimizer := (optimizer b)
                           \<lparr>o_poseVertices := o_poseVertices (optimizer b) @ [v]\<rparr>,
                         kfIdToCovKfThenVertex :=
                           AList.update kfId (kf, v) (kfIdToCovKfThenVertex b)\<rparr>
              in fold (mappoint_vertex_step mm) (GetObservingMappointIds (frames h' kf))
                   (b', h', v))))"

text \<open>
  Lines 167-217.  \<^verbatim>\<open>Frame::GetActiveCovisibleKfIds\<close> is defined in a file not verified
  here and the specification does not say which covisible keyframes are active: a
  parameter.
\<close>

definition build_vertices ::
  "(Frame \<Rightarrow> size_t list) \<Rightarrow> MapManager \<Rightarrow> Backend \<Rightarrow> store \<Rightarrow> error + Backend \<times> store \<times> nat" where
  "build_vertices GetActiveCovisibleKfIds mm b h =
     (case keyframeCurr b of
        None \<Rightarrow> Inl NullPointerDereference
      | Some cur \<Rightarrow>
          (let covisibleKfIds =
                 set_insert (f_id (frames h cur)) (GetActiveCovisibleKfIds (frames h cur))
           in Inr (fold (keyframe_vertex_step mm) covisibleKfIds (b, h, 0))))"

subsection \<open>OptimizeLocalMap: edges\<close>

text \<open>A loop whose body can fail stops at the first failure.\<close>

fun fold_err :: "('a \<Rightarrow> 's \<Rightarrow> error + 's) \<Rightarrow> 'a list \<Rightarrow> 's \<Rightarrow> error + 's" where
  "fold_err f [] s = Inr s"
| "fold_err f (x # xs) s = (case f x s of Inl e \<Rightarrow> Inl e | Inr s' \<Rightarrow> fold_err f xs s')"

definition deltaRGBD :: real where
  "deltaRGBD = sqrt 7.815"

text \<open>
  Lines 234-285, the body of the loop over the observers of one mappoint.  Line 237 calls
  \<^verbatim>\<open>keyframe->GetKeypoint(kptIdx)\<close> before line 239 tests \<^verbatim>\<open>keyframe == nullptr\<close>.
  \<^verbatim>\<open>needTriangulate\<close> is the constant false, so lines 281-284 and 287-296 do nothing.
  The state is the backend, the store, \<^verbatim>\<open>vertexIndex\<close> and \<^verbatim>\<open>edgeIndex\<close>.
\<close>

definition edge_step ::
  "MapManager \<Rightarrow> mpt_ptr \<Rightarrow> nat \<Rightarrow> size_t \<times> size_t \<Rightarrow>
   Backend \<times> store \<times> nat \<times> nat \<Rightarrow> error + Backend \<times> store \<times> nat \<times> nat" where
  "edge_step mm mpt mptVertex obs st =
     (case obs of (kfId, kptIdx) \<Rightarrow>
      case st of (b, h, vertexIndex, edgeIndex) \<Rightarrow>
        (let keyframe = GetKeyframe mm kfId in
         case (case keyframe of
                 None \<Rightarrow> Inl NullPointerDereference
               | Some kf \<Rightarrow> GetKeypoint (frames h kf) kptIdx) of
           Inl err \<Rightarrow> Inl err
         | Inr kpt \<Rightarrow>
             (case keyframe of
                None \<Rightarrow> Inr st
              | Some kf \<Rightarrow>
                  (case (case map_of (kfIdToCovKfThenVertex b) kfId of
                           Some (covKf, v) \<Rightarrow> (v, b, h, vertexIndex)
                         | None \<Rightarrow>
                             (let v = vertexIndex + 1;
                                  fixedPoseVertex =
                                    \<lparr>vp_id = v, vp_estimate = f_T_c_w (frames h kf),
                                     vp_fixed = True\<rparr>
                              in (v,
                                  b\<lparr>optimizer := (optimizer b)
                                      \<lparr>o_poseVertices := o_poseVertices (optimizer b) @ [v]\<rparr>,
                                    kfIdToFixedKfThenVertex :=
                                      AList.update kfId (kf, v) (kfIdToFixedKfThenVertex b)\<rparr>,
                                  h\<lparr>poseVertices := (poseVertices h)(v := fixedPoseVertex)\<rparr>,
                                  v))) of
                     (poseVertex, b1, h1, vertexIndex1) \<Rightarrow>
                       (let e = edgeIndex + 1;
                            edge = \<lparr>e_id = e, e_vertex0 = poseVertex, e_vertex1 = mptVertex,
                                    e_measurement = kpt, e_information = ((1, 0), (0, 1)),
                                    e_robustKernel = Some deltaRGBD, e_level = 0, e_chi2 = 0\<rparr>;
                            h2 = h1\<lparr>edges := (edges h1)(e := edge)\<rparr>;
                            b2 = b1\<lparr>optimizer := (optimizer b1)
                                     \<lparr>o_edges := o_edges (optimizer b1) @ [e]\<rparr>,
                                   edgeToKfThenMpt :=
                                     AList.update e (kf, mpt) (edgeToKfThenMpt b1)\<rparr>
                        in Inr (b2, h2, vertexIndex1, e))))))"

text \<open>Lines 224-297, the body of the loop over the mappoint vertices.\<close>

definition mappoint_edges_step ::
  "MapManager \<Rightarrow> size_t \<times> mpt_ptr \<times> nat \<Rightarrow>
   Backend \<times> store \<times> nat \<times> nat \<Rightarrow> error + Backend \<times> store \<times> nat \<times> nat" where
  "mappoint_edges_step mm entry st =
     (case entry of (mptId, mpt, mptVertex) \<Rightarrow>
      case st of (b, h, vertexIndex, edgeIndex) \<Rightarrow>
        fold_err (edge_step mm mpt mptVertex) (m_observedByKeyframes (mappoints h mpt)) st)"

definition build_edges ::
  "MapManager \<Rightarrow> Backend \<times> store \<times> nat \<Rightarrow> error + Backend \<times> store \<times> nat \<times> nat" where
  "build_edges mm st =
     (case st of (b, h, vertexIndex) \<Rightarrow>
        fold_err (mappoint_edges_step mm) (mptIdToMptThenVertex b) (b, h, vertexIndex, 0))"

subsection \<open>OptimizeLocalMap: optimization and the two outlier sweeps\<close>

text \<open>
  The solver (g2o, Levenberg-Marquardt) and the reprojection residual are outside the
  repository: parameters.  Given the level, the number of iterations, the optimizer's
  graph and the store, the solver returns new estimates; \<open>optimize\<close> stores them in the
  vertices the optimizer owns and changes nothing else.  The residual of an edge is a
  function of the pose estimate, the point estimate and the measurement.
\<close>

type_synonym solver =
  "int \<Rightarrow> nat \<Rightarrow> SparseOptimizer \<Rightarrow> store \<Rightarrow> (nat \<Rightarrow> SE3) \<times> (nat \<Rightarrow> Vector3d)"

type_synonym residual = "SE3 \<Rightarrow> Vector3d \<Rightarrow> Vector2d \<Rightarrow> real"

definition optimize :: "solver \<Rightarrow> int \<Rightarrow> nat \<Rightarrow> SparseOptimizer \<Rightarrow> store \<Rightarrow> store" where
  "optimize solve level iterations opt h =
     (case solve level iterations opt h of (poseEst, mptEst) \<Rightarrow>
        h\<lparr>poseVertices := (\<lambda>v. if v \<in> set (o_poseVertices opt)
                                then (poseVertices h v)\<lparr>vp_estimate := poseEst v\<rparr>
                                else poseVertices h v),
          mptVertices := (\<lambda>v. if v \<in> set (o_mptVertices opt)
                               then (mptVertices h v)\<lparr>vm_estimate := mptEst v\<rparr>
                               else mptVertices h v)\<rparr>)"

text \<open>The residual of an edge at the current estimates of its two vertices.\<close>

definition edge_chi2 :: "residual \<Rightarrow> store \<Rightarrow> nat \<Rightarrow> real" where
  "edge_chi2 chi2_of h edge =
     chi2_of (vp_estimate (poseVertices h (e_vertex0 (edges h edge))))
             (vm_estimate (mptVertices h (e_vertex1 (edges h edge))))
             (e_measurement (edges h edge))"

definition computeError :: "residual \<Rightarrow> nat \<Rightarrow> store \<Rightarrow> store" where
  "computeError chi2_of edge h =
     h\<lparr>edges := (edges h)(edge := (edges h edge)\<lparr>e_chi2 := edge_chi2 chi2_of h edge\<rparr>)\<rparr>"

definition setLevel :: "nat \<Rightarrow> int \<Rightarrow> store \<Rightarrow> store" where
  "setLevel edge l h = h\<lparr>edges := (edges h)(edge := (edges h edge)\<lparr>e_level := l\<rparr>)\<rparr>"

definition setRobustKernel :: "nat \<Rightarrow> real option \<Rightarrow> store \<Rightarrow> store" where
  "setRobustKernel edge rk h =
     h\<lparr>edges := (edges h)(edge := (edges h edge)\<lparr>e_robustKernel := rk\<rparr>)\<rparr>"

text \<open>The assignment \<^verbatim>\<open>mpt->optimized_ = v\<close>.\<close>

definition set_optimized :: "mpt_ptr \<Rightarrow> bool \<Rightarrow> store \<Rightarrow> store" where
  "set_optimized mpt v h =
     h\<lparr>mappoints := (mappoints h)(mpt := (mappoints h mpt)\<lparr>m_optimized := v\<rparr>)\<rparr>"

text \<open>Lines 305-316, the body of the first sweep (\<^verbatim>\<open>outlierCnt\<close> is only printed).\<close>

definition sweep1_step ::
  "residual \<Rightarrow> MapManager \<Rightarrow> real \<Rightarrow> nat \<times> frame_ptr \<times> mpt_ptr \<Rightarrow> store \<Rightarrow> store" where
  "sweep1_step chi2_of mm chi2Th entry h =
     (case entry of (edge, kf, mpt) \<Rightarrow>
        (let h1 = computeError chi2_of edge h;
             h2 = (if e_chi2 (edges h1 edge) > chi2Th
                   then setLevel edge 1
                          (RemoveObservedMappoint mm kf (m_id (mappoints h1 mpt)) h1)
                   else h1)
         in setRobustKernel edge None h2))"

text \<open>
  Lines 322-332, the body of the second sweep.  \<^verbatim>\<open>edgeToKfThenMpt_[edge]\<close> is the entry
  under iteration.
\<close>

definition sweep2_step ::
  "residual \<Rightarrow> MapManager \<Rightarrow> real \<Rightarrow> nat \<times> frame_ptr \<times> mpt_ptr \<Rightarrow> store \<Rightarrow> store" where
  "sweep2_step chi2_of mm chi2Th entry h =
     (case entry of (edge, kf, mpt) \<Rightarrow>
        (let h1 = computeError chi2_of edge h;
             h2 = (if e_level (edges h1 edge) = 0 \<and> e_chi2 (edges h1 edge) > chi2Th
                   then RemoveObservedMappoint mm kf (m_id (mappoints h1 mpt)) h1
                   else h1)
         in set_optimized mpt True h2))"

definition sweep1 :: "residual \<Rightarrow> MapManager \<Rightarrow> Backend \<Rightarrow> store \<Rightarrow> store" where
  "sweep1 chi2_of mm b h = fold (sweep1_step chi2_of mm (chi2Threshold b)) (edgeToKfThenMpt b) h"

definition sweep2 :: "residual \<Rightarrow> MapManager \<Rightarrow> Backend \<Rightarrow> store \<Rightarrow> store" where
  "sweep2 chi2_of mm b h = fold (sweep2_step chi2_of mm (chi2Threshold b)) (edgeToKfThenMpt b) h"

text \<open>Lines 299-332: two rounds of ten iterations at level 0, each followed by its sweep.\<close>

definition two_pass :: "solver \<Rightarrow> residual \<Rightarrow> MapManager \<Rightarrow> Backend \<Rightarrow> store \<Rightarrow> store" where
  "two_pass solve chi2_of mm b h =
     (let h1 = optimize solve 0 10 (optimizer b) h;
          h2 = sweep1 chi2_of mm b h1;
          h3 = optimize solve 0 10 (optimizer b) h2
      in sweep2 chi2_of mm b h3)"

text \<open>Lines 165-341.\<close>

definition OptimizeLocalMap ::
  "solver \<Rightarrow> residual \<Rightarrow> (Frame \<Rightarrow> size_t list) \<Rightarrow> MapManager \<Rightarrow> Backend \<Rightarrow> store \<Rightarrow>
   error + Backend \<times> store" where
  "OptimizeLocalMap solve chi2_of GetActiveCovisibleKfIds mm b h =
     (case build_vertices GetActiveCovisibleKfIds mm b h of
        Inl err \<Rightarrow> Inl err
      | Inr st \<Rightarrow>
          (case build_edges mm st of
             Inl err \<Rightarrow> Inl err
           | Inr (b1, h1, vertexIndex, edgeIndex) \<Rightarrow>
               Inr (b1, two_pass solve chi2_of mm b1 h1)))"

subsection \<open>UpdateFrontendTrackingMap\<close>

text \<open>The two structures of the frontend that the callback receives by reference.\<close>

record Frontend =
  refKeyframe :: "frame_ptr option"
  trackingMap :: "(size_t \<times> mpt_ptr) list"

text \<open>
  Line 348: \<^verbatim>\<open>refKeyframe == nullptr || refKeyframe->GetId() != keyframeCurr_->GetId()\<close>;
  the right operand is evaluated only when the left one is false.
\<close>

definition needs_reset :: "Backend \<Rightarrow> Frontend \<Rightarrow> store \<Rightarrow> error + bool" where
  "needs_reset b fe h =
     (case refKeyframe fe of
        None \<Rightarrow> Inr True
      | Some r \<Rightarrow>
          (case keyframeCurr b of
             None \<Rightarrow> Inl NullPointerDereference
           | Some cur \<Rightarrow> Inr (f_id (frames h r) \<noteq> f_id (frames h cur))))"

text \<open>Lines 350-358: the map is cleared and refilled from the mappoint vertices.\<close>

definition rebuild_trackingMap ::
  "(size_t \<times> mpt_ptr \<times> nat) list \<Rightarrow> store \<Rightarrow> (size_t \<times> mpt_ptr) list" where
  "rebuild_trackingMap mptVertexMap h =
     fold (\<lambda>(mptId, mpt, mptVertex) tm.
             if m_outlier (mappoints h mpt) then tm else AList.update mptId mpt tm)
          mptVertexMap []"

text \<open>Lines 349-363.\<close>

definition reset_tracking :: "MapManager \<Rightarrow> Backend \<Rightarrow> store \<Rightarrow> Frontend" where
  "reset_tracking mm b h =
     (let tm = rebuild_trackingMap (mptIdToMptThenVertex b) h
      in \<lparr>refKeyframe = keyframeCurr b,
          trackingMap = (if length tm < 100 then GetAllMappoints mm else tm)\<rparr>)"

text \<open>Lines 366-370 and 372-379: the two write-back loops.\<close>

definition write_poses :: "(size_t \<times> frame_ptr \<times> nat) list \<Rightarrow> store \<Rightarrow> store" where
  "write_poses kfVertexMap h =
     fold (\<lambda>(kfId, kf, kfVertex) h'. SetTcw kf (vp_estimate (poseVertices h' kfVertex)) h')
          kfVertexMap h"

definition write_positions :: "(size_t \<times> mpt_ptr \<times> nat) list \<Rightarrow> store \<Rightarrow> store" where
  "write_positions mptVertexMap h =
     fold (\<lambda>(mptId, mpt, mptVertex) h'.
             if \<not> m_outlier (mappoints h' mpt)
             then SetPosition mpt (vm_estimate (mptVertices h' mptVertex)) h'
             else h')
          mptVertexMap h"

text \<open>Lines 345-380, the callback passed to the frontend's handler.\<close>

definition UpdateFrontendTrackingMap ::
  "MapManager \<Rightarrow> Backend \<Rightarrow> Frontend \<Rightarrow> store \<Rightarrow> error + Frontend \<times> store" where
  "UpdateFrontendTrackingMap mm b fe h =
     (case needs_reset b fe h of
        Inl err \<Rightarrow> Inl err
      | Inr reset \<Rightarrow>
          Inr (if reset then reset_tracking mm b h else fe,
               write_positions (mptIdToMptThenVertex b)
                 (write_poses (kfIdToCovKfThenVertex b) h)))"

text \<open>
  For the statements about the handoff: the non-outlier mappoints that have a vertex in
  this round's optimizer, as entries of a tracking map.
\<close>

definition surviving_mappoints :: "Backend \<Rightarrow> store \<Rightarrow> (size_t \<times> mpt_ptr) list" where
  "surviving_mappoints b h =
     map (\<lambda>(mptId, mpt, mptVertex). (mptId, mpt))
       (filter (\<lambda>(mptId, mpt, mptVertex). \<not> m_outlier (mappoints h mpt))
          (mptIdToMptThenVertex b))"

subsection \<open>CleanUp\<close>

text \<open>
  Lines 383-392: the four maps of a round and the optimizer are emptied.  The worker's loop
  (lines 42-59) runs \<^verbatim>\<open>OptimizeLocalMap\<close>, \<^verbatim>\<open>UpdateFrontendTrackingMap\<close> and \<^verbatim>\<open>CleanUp\<close>
  in this order for every keyframe, so each round starts from emptied containers.
\<close>

definition CleanUp :: "Backend \<Rightarrow> Backend" where
  "CleanUp b =
     b\<lparr>kfIdToCovKfThenVertex := [], mptIdToMptThenVertex := [],
       kfIdToFixedKfThenVertex := [], edgeToKfThenMpt := [],
       optimizer := \<lparr>o_poseVertices = [], o_mptVertices = [], o_edges = []\<rparr>\<rparr>"

section \<open>The id counter of keyframes\<close>

text \<open>
  Modelled from the spec: \<^verbatim>\<open>Frame::CreateFrame\<close> is declared in frame.h, beside the static
  counter \<^verbatim>\<open>factoryId_\<close> and a private constructor that takes the id, and is defined
  in a file not verified here.  By the specification the id is "allocated by a process-wide
  counter at construction": the frame gets the counter's value and the counter is
  incremented.  The other fields start empty, the pose at the identity.
\<close>

definition CreateFrame :: "real \<Rightarrow> size_t \<Rightarrow> Frame \<times> size_t" where
  "CreateFrame timestamp factoryId =
     (\<lparr>f_id = factoryId, f_timestamp = timestamp, f_T_c_w = SE3 (0, 0, 0, 1) (0, 0, 0),
       f_keypoints = [], f_observedMappoints = [], f_covisibleKeyframeIdToWeight = []\<rparr>,
      factoryId + 1)"

fun frames_run :: "real list \<Rightarrow> size_t \<Rightarrow> Frame list \<times> size_t" where
  "frames_run [] c = ([], c)"
| "frames_run (t # ts) c =
     (let (f, c') = CreateFrame t c; (fs, c'') = frames_run ts c' in (f # fs, c''))"

section \<open>Auxiliary notions for the statements\<close>

text \<open>The mappoint ids a keyframe observes, as a set.\<close>

definition observed :: "store \<Rightarrow> frame_ptr \<Rightarrow> size_t set" where
  "observed h kf = set (GetObservingMappointIds (frames h kf))"

text \<open>
  What no step of a sweep changes: the estimates, the endpoints and measurements of the
  edges and the ids of the mappoints; and no step adds an observation to a keyframe.
\<close>

definition sweep_frame :: "store \<Rightarrow> store \<Rightarrow> bool" where
  "sweep_frame h h' \<longleftrightarrow>
     poseVertices h' = poseVertices h \<and> mptVertices h' = mptVertices h
     \<and> (\<forall>e. e_vertex0 (edges h' e) = e_vertex0 (edges h e)
            \<and> e_vertex1 (edges h' e) = e_vertex1 (edges h e)
            \<and> e_measurement (edges h' e) = e_measurement (edges h e))
     \<and> (\<forall>p. m_id (mappoints h' p) = m_id (mappoints h p))
     \<and> (\<forall>p. observed h' p \<subseteq> observed h p)"

text \<open>
  The ids whose observation a sweep removes from keyframe \<open>kf\<close>, given which edges the
  sweep finds to be outliers.
\<close>

definition removed_ids ::
  "(nat \<Rightarrow> bool) \<Rightarrow> store \<Rightarrow> frame_ptr \<Rightarrow> (nat \<times> frame_ptr \<times> mpt_ptr) list \<Rightarrow> size_t list" where
  "removed_ids outl h kf xs =
     map (\<lambda>(e, kf', mpt). m_id (mappoints h mpt))
       (filter (\<lambda>(e, kf', mpt). kf' = kf \<and> outl e) xs)"

text \<open>
  For the statements about the fuse step.  The candidate that one new mappoint yields at
  one keyframe: a replacement candidate (old mappoint id, new mappoint id, distance) when
  the matched keypoint already has a mappoint, a keypoint candidate (keypoint index, new
  mappoint, distance) when it has none; nothing when there is no match or the distance
  exceeds the threshold.
\<close>

definition old_candidate ::
  "matcher \<Rightarrow> real \<Rightarrow> store \<Rightarrow> frame_ptr \<Rightarrow> mpt_ptr \<Rightarrow> (size_t \<times> size_t \<times> real) option" where
  "old_candidate GetMatchedKeypoint reMatch h kf mpt =
     (case GetMatchedKeypoint h kf mpt of
        None \<Rightarrow> None
      | Some (kptIdx, distance, mayObserveMpt) \<Rightarrow>
          if distance > reMatch then None
          else (case IsKeypointMatchWithMappoint (frames h kf) kptIdx of
                  Some oldMptId \<Rightarrow> Some (oldMptId, m_id (mappoints h mpt), distance)
                | None \<Rightarrow> None))"

definition kpt_candidate ::
  "matcher \<Rightarrow> real \<Rightarrow> store \<Rightarrow> frame_ptr \<Rightarrow> mpt_ptr \<Rightarrow> (size_t \<times> mpt_ptr \<times> real) option" where
  "kpt_candidate GetMatchedKeypoint reMatch h kf mpt =
     (case GetMatchedKeypoint h kf mpt of
        None \<Rightarrow> None
      | Some (kptIdx, distance, mayObserveMpt) \<Rightarrow>
          if distance > reMatch then None
          else (case IsKeypointMatchWithMappoint (frames h kf) kptIdx of
                  Some oldMptId \<Rightarrow> None
                | None \<Rightarrow> Some (kptIdx, mpt, distance)))"

text \<open>
  The candidates in the order in which the loops meet them: keypoint candidates of one
  keyframe over the new mappoints, replacement candidates over all keyframes and, within
  a keyframe, over the new mappoints.
\<close>

definition kpt_candidates ::
  "matcher \<Rightarrow> Backend \<Rightarrow> store \<Rightarrow> frame_ptr \<Rightarrow> (size_t \<times> mpt_ptr \<times> real) list" where
  "kpt_candidates GetMatchedKeypoint b h kf =
     List.map_filter (kpt_candidate GetMatchedKeypoint (reMatchDescriptorDistance b) h kf)
       (map fst (newMptKptIdxMap b))"

definition old_candidates ::
  "matcher \<Rightarrow> Backend \<Rightarrow> store \<Rightarrow> frame_ptr list \<Rightarrow> (size_t \<times> size_t \<times> real) list" where
  "old_candidates GetMatchedKeypoint b h kfs =
     concat (map (\<lambda>kf. List.map_filter
                    (old_candidate GetMatchedKeypoint (reMatchDescriptorDistance b) h kf)
                    (map fst (newMptKptIdxMap b))) kfs)"

text \<open>
  \<open>earliest_smallest cs k (v, d)\<close>: among the candidates \<open>cs\<close> for key \<open>k\<close>, the pair
  \<open>(v, d)\<close> has the smallest distance, and it is the first candidate with that distance.
\<close>

definition earliest_smallest :: "('k \<times> 'v \<times> real) list \<Rightarrow> 'k \<Rightarrow> 'v \<times> real \<Rightarrow> bool" where
  "earliest_smallest cs k vd \<longleftrightarrow>
     (\<exists>i < length cs. cs ! i = (k, vd)
        \<and> (\<forall>j < length cs. fst (cs ! j) = k \<longrightarrow> snd vd \<le> snd (snd (cs ! j)))
        \<and> (\<forall>j < i. fst (cs ! j) = k \<longrightarrow> snd vd < snd (snd (cs ! j))))"

text \<open>The count/compare/assign pattern applied to a list of candidates, in order.\<close>

definition keep_all :: "('k \<times> 'v \<times> real) list \<Rightarrow> ('k \<times> 'v \<times> real) list \<Rightarrow> ('k \<times> 'v \<times> real) list" where
  "keep_all cs m = fold (\<lambda>(k, v, d). keep_or_assign k v d) cs m"

text \<open>
  What a step of the edge-building loops leaves in place: the keyframes and mappoints, the
  map of mappoint vertices, and every entry of the edge map whose key is at most the
  current \<^verbatim>\<open>edgeIndex\<close>, which only grows.
\<close>

definition build_step_ok ::
  "Backend \<times> store \<times> nat \<times> nat \<Rightarrow> Backend \<times> store \<times> nat \<times> nat \<Rightarrow> bool" where
  "build_step_ok s s' \<longleftrightarrow>
     (case s of (b, h, vertexIndex, edgeIndex) \<Rightarrow>
      case s' of (b', h', vertexIndex', edgeIndex') \<Rightarrow>
        mappoints h' = mappoints h \<and> frames h' = frames h
        \<and> mptIdToMptThenVertex b' = mptIdToMptThenVertex b
        \<and> edgeIndex \<le> edgeIndex'
        \<and> (\<forall>x \<in> set (edgeToKfThenMpt b). fst x \<le> edgeIndex \<longrightarrow> x \<in> set (edgeToKfThenMpt b')))"

text \<open>A mappoint has an edge of this round: an entry whose key is at most the edge index.\<close>

definition has_edge :: "mpt_ptr \<Rightarrow> Backend \<times> store \<times> nat \<times> nat \<Rightarrow> bool" where
  "has_edge mpt s \<longleftrightarrow>
     (\<exists>e kf. e \<le> snd (snd (snd s)) \<and> (e, kf, mpt) \<in> set (edgeToKfThenMpt (fst s)))"

text \<open>
  For the statements about the pose vertices of a round.  g2o does not move a vertex that
  is marked fixed; the solver is a parameter here, so this is a condition on it.
\<close>

definition leaves_fixed :: "solver \<Rightarrow> bool" where
  "leaves_fixed solve \<longleftrightarrow>
     (\<forall>level iterations opt h v.
        v \<in> set (o_poseVertices opt) \<and> vp_fixed (poseVertices h v)
          \<longrightarrow> fst (solve level iterations opt h) v = vp_estimate (poseVertices h v))"

text \<open>
  \<open>pose_held h kf v\<close>: vertex \<open>v\<close> is fixed and its estimate is the pose of keyframe
  \<open>kf\<close>.  \<open>outside_window b kf\<close>: no entry of \<^verbatim>\<open>kfIdToCovKfThenVertex_\<close> holds \<open>kf\<close>.
  \<open>window_from mm b\<close>: every entry of \<^verbatim>\<open>kfIdToCovKfThenVertex_\<close> holds the keyframe that
  the Map Manager has under the entry's id.
\<close>

definition pose_held :: "store \<Rightarrow> frame_ptr \<Rightarrow> nat \<Rightarrow> bool" where
  "pose_held h kf v \<longleftrightarrow>
     vp_fixed (poseVertices h v) \<and> vp_estimate (poseVertices h v) = f_T_c_w (frames h kf)"

definition outside_window :: "Backend \<Rightarrow> frame_ptr \<Rightarrow> bool" where
  "outside_window b kf \<longleftrightarrow> kf \<notin> (fst \<circ> snd) ` set (kfIdToCovKfThenVertex b)"

definition window_from :: "MapManager \<Rightarrow> Backend \<Rightarrow> bool" where
  "window_from mm b \<longleftrightarrow>
     (\<forall>(kfId, kf, v) \<in> set (kfIdToCovKfThenVertex b). GetKeyframe mm kfId = Some kf)"

text \<open>
  What the edge-building loops maintain.  \<open>pose_inv\<close>: every entry of
  \<^verbatim>\<open>kfIdToFixedKfThenVertex_\<close> holds a keyframe outside the window with a fixed vertex at
  the keyframe's pose, and the pose vertex of every edge is either the vertex recorded for
  the edge's keyframe in \<^verbatim>\<open>kfIdToCovKfThenVertex_\<close> or such a fixed vertex.  \<open>covered\<close>:
  every pose vertex the optimizer owns is recorded in \<^verbatim>\<open>kfIdToCovKfThenVertex_\<close> or is the
  pose vertex of an edge.  \<open>vertices_inv\<close> and \<open>window_covers\<close> are what the
  vertex-building loop maintains before that.
\<close>

definition pose_inv :: "Backend \<times> store \<times> nat \<times> nat \<Rightarrow> bool" where
  "pose_inv s \<longleftrightarrow>
     (case s of (b, h, vertexIndex, edgeIndex) \<Rightarrow>
        (\<forall>kfId kf v. (kfId, kf, v) \<in> set (kfIdToFixedKfThenVertex b) \<longrightarrow>
           v \<le> vertexIndex \<and> pose_held h kf v \<and> outside_window b kf)
        \<and> (\<forall>e kf mpt. (e, kf, mpt) \<in> set (edgeToKfThenMpt b) \<longrightarrow>
             e \<le> edgeIndex
             \<and> ((\<exists>kfId. (kfId, kf, e_vertex0 (edges h e)) \<in> set (kfIdToCovKfThenVertex b))
                \<or> (e_vertex0 (edges h e) \<le> vertexIndex
                   \<and> pose_held h kf (e_vertex0 (edges h e)) \<and> outside_window b kf))))"

definition covered :: "Backend \<times> store \<times> nat \<times> nat \<Rightarrow> bool" where
  "covered s \<longleftrightarrow>
     (case s of (b, h, vertexIndex, edgeIndex) \<Rightarrow>
        (\<forall>v. v \<in> set (o_poseVertices (optimizer b)) \<longrightarrow>
           (\<exists>kfId kf. (kfId, kf, v) \<in> set (kfIdToCovKfThenVertex b))
           \<or> (\<exists>e kf mpt. (e, kf, mpt) \<in> set (edgeToKfThenMpt b)
                 \<and> e \<le> edgeIndex \<and> e_vertex0 (edges h e) = v)))"

definition vertices_inv :: "MapManager \<Rightarrow> Backend \<Rightarrow> bool" where
  "vertices_inv mm b \<longleftrightarrow>
     window_from mm b \<and> kfIdToFixedKfThenVertex b = [] \<and> edgeToKfThenMpt b = []"

definition window_covers :: "Backend \<Rightarrow> bool" where
  "window_covers b \<longleftrightarrow>
     (\<forall>v. v \<in> set (o_poseVertices (optimizer b)) \<longrightarrow>
        (\<exists>kfId kf. (kfId, kf, v) \<in> set (kfIdToCovKfThenVertex b)))"

section \<open>Concrete states\<close>

text \<open>Objects at addresses nothing points to.\<close>

definition blank_frame :: Frame where
  "blank_frame =
     \<lparr>f_id = 0, f_timestamp = 0, f_T_c_w = SE3 (0, 0, 0, 1) (0, 0, 0),
      f_keypoints = [], f_observedMappoints = [], f_covisibleKeyframeIdToWeight = []\<rparr>"

definition blank_mappoint :: Mappoint where
  "blank_mappoint =
     \<lparr>m_id = 0, m_position = (0, 0, 0), m_outlier = False,
      m_triangulated = False, m_optimized = False, m_observedByKeyframes = []\<rparr>"

definition blank_store :: store where
  "blank_store =
     \<lparr>frames = (\<lambda>p. blank_frame), mappoints = (\<lambda>p. blank_mappoint),
      poseVertices =
        (\<lambda>v. \<lparr>vp_id = 0, vp_estimate = SE3 (0, 0, 0, 1) (0, 0, 0), vp_fixed = False\<rparr>),
      mptVertices = (\<lambda>v. \<lparr>vm_id = 0, vm_estimate = (0, 0, 0), vm_marginalized = False\<rparr>),
      edges = (\<lambda>e. \<lparr>e_id = 0, e_vertex0 = 0, e_vertex1 = 0, e_measurement = (0, 0),
                    e_information = ((1, 0), (0, 1)), e_robustKernel = None, e_level = 0,
                    e_chi2 = 0\<rparr>)\<rparr>"

text \<open>
  Three keyframes in a chain: keyframe 0 (at address 10) is covisible with keyframe 1
  (address 11), which is covisible with keyframes 0 and 2 (address 12).
\<close>

definition chain_mm :: MapManager where
  "chain_mm = \<lparr>mm_keyframes = [(0, 10), (1, 11), (2, 12)], mm_mappoints = []\<rparr>"

definition chain_store :: store where
  "chain_store =
     blank_store\<lparr>frames := (\<lambda>p. blank_frame)
       (10 := blank_frame\<lparr>f_id := 0, f_covisibleKeyframeIdToWeight := [(1, 20)]\<rparr>,
        11 := blank_frame\<lparr>f_id := 1, f_covisibleKeyframeIdToWeight := [(0, 20), (2, 17)]\<rparr>,
        12 := blank_frame\<lparr>f_id := 2, f_covisibleKeyframeIdToWeight := [(1, 17)]\<rparr>)\<rparr>"

definition chain_backend :: Backend where
  "chain_backend = (Backend_init 5.991 50)\<lparr>keyframeCurr := Some 10\<rparr>"

text \<open>
  One keyframe (id 0, address 10) observing one mappoint (id 5, address 30) whose
  observers also list keyframe id 9, which the Map Manager does not hold.
\<close>

definition dangling_mm :: MapManager where
  "dangling_mm = \<lparr>mm_keyframes = [(0, 10)], mm_mappoints = [(5, 30)]\<rparr>"

definition dangling_store :: store where
  "dangling_store =
     blank_store
       \<lparr>frames := (\<lambda>p. blank_frame)
          (10 := blank_frame\<lparr>f_id := 0, f_keypoints := [(100, 120)],
                   f_observedMappoints := [(0, 5)]\<rparr>),
        mappoints := (\<lambda>p. blank_mappoint)
          (30 := blank_mappoint\<lparr>m_id := 5, m_position := (1, 2, 3),
                   m_observedByKeyframes := [(0, 0), (9, 3)]\<rparr>)\<rparr>"

definition dangling_backend :: Backend where
  "dangling_backend = (Backend_init 5.991 50)\<lparr>keyframeCurr := Some 10\<rparr>"

text \<open>
  A state at the time of the handoff.  Keyframes 0 and 1 are at addresses 10 and 11;
  keyframe 1 was just processed and has pose vertex 1.  Mappoint 5 (address 30, vertex 2)
  has been marked outlier after its vertex was made; mappoint 6 (address 31, vertex 3)
  has not.
\<close>

definition handoff_mm :: MapManager where
  "handoff_mm = \<lparr>mm_keyframes = [(0, 10), (1, 11)], mm_mappoints = [(5, 30), (6, 31)]\<rparr>"

definition handoff_store :: store where
  "handoff_store =
     blank_store
       \<lparr>frames := (\<lambda>p. blank_frame)
          (10 := blank_frame\<lparr>f_id := 0\<rparr>,
           11 := blank_frame\<lparr>f_id := 1, f_T_c_w := SE3 (0, 0, 0, 1) (1, 0, 0)\<rparr>),
        mappoints := (\<lambda>p. blank_mappoint)
          (30 := blank_mappoint\<lparr>m_id := 5, m_position := (1, 2, 3), m_outlier := True\<rparr>,
           31 := blank_mappoint\<lparr>m_id := 6, m_position := (4, 5, 6)\<rparr>),
        poseVertices := (poseVertices blank_store)
          (1 := \<lparr>vp_id = 1, vp_estimate = SE3 (0, 0, 0, 1) (2, 0, 0), vp_fixed = False\<rparr>),
        mptVertices := (mptVertices blank_store)
          (2 := \<lparr>vm_id = 2, vm_estimate = (7, 8, 9), vm_marginalized = True\<rparr>,
           3 := \<lparr>vm_id = 3, vm_estimate = (4, 5, 7), vm_marginalized = True\<rparr>)\<rparr>"

definition handoff_backend :: Backend where
  "handoff_backend =
     (Backend_init 5.991 50)
       \<lparr>keyframeCurr := Some 11,
        kfIdToCovKfThenVertex := [(1, 11, 1)],
        mptIdToMptThenVertex := [(5, 30, 2), (6, 31, 3)]\<rparr>"

text \<open>The same round when its only mappoint vertex belongs to the outlier.\<close>

definition all_outlier_backend :: Backend where
  "all_outlier_backend = handoff_backend\<lparr>mptIdToMptThenVertex := [(5, 30, 2)]\<rparr>"

text \<open>A frontend that still tracks against keyframe 0, and one that already tracks
  against keyframe 1.\<close>

definition stale_frontend :: Frontend where
  "stale_frontend = \<lparr>refKeyframe = Some 10, trackingMap = [(5, 30)]\<rparr>"

definition current_frontend :: Frontend where
  "current_frontend = \<lparr>refKeyframe = Some 11, trackingMap = [(6, 31)]\<rparr>"

text \<open>
  A round of local bundle adjustment with two keyframes (ids 0 and 1, addresses 10 and 11)
  that both observe mappoints 5 and 6 (addresses 30 and 31).  The residual used here is
  the squared pixel distance between the measurement and the first two coordinates of the
  point, and the solver returns the estimates it is given.  The second keypoint of
  keyframe 1 is 40 pixels away from mappoint 6.
\<close>

definition ba_mm :: MapManager where
  "ba_mm = \<lparr>mm_keyframes = [(0, 10), (1, 11)], mm_mappoints = [(5, 30), (6, 31)]\<rparr>"

definition ba_store :: store where
  "ba_store =
     blank_store
       \<lparr>frames := (\<lambda>p. blank_frame)
          (10 := blank_frame\<lparr>f_id := 0, f_keypoints := [(100, 120), (50, 60)],
                   f_observedMappoints := [(0, 5), (1, 6)]\<rparr>,
           11 := blank_frame\<lparr>f_id := 1, f_keypoints := [(101, 121), (90, 60)],
                   f_observedMappoints := [(0, 5), (1, 6)]\<rparr>),
        mappoints := (\<lambda>p. blank_mappoint)
          (30 := blank_mappoint\<lparr>m_id := 5, m_position := (100, 120, 1),
                   m_observedByKeyframes := [(0, 0), (1, 0)]\<rparr>,
           31 := blank_mappoint\<lparr>m_id := 6, m_position := (50, 60, 1),
                   m_observedByKeyframes := [(0, 1), (1, 1)]\<rparr>)\<rparr>"

definition ba_backend :: Backend where
  "ba_backend = (Backend_init 5.991 50)\<lparr>keyframeCurr := Some 11\<rparr>"

definition ba_active :: "Frame \<Rightarrow> size_t list" where
  "ba_active f = (if f_id f = 1 then [0] else [])"

definition ba_residual :: residual where
  "ba_residual T p z = (fst z - fst p)\<^sup>2 + (snd z - fst (snd p))\<^sup>2"

definition ba_solver :: solver where
  "ba_solver level iterations opt h =
     (\<lambda>v. vp_estimate (poseVertices h v), \<lambda>v. vm_estimate (mptVertices h v))"

text \<open>
  The same round once the vertices and edges are built (lines 167-297): pose vertices 1 and
  4, mappoint vertices 2 and 3, and one edge per observation.
\<close>

definition built_backend :: Backend where
  "built_backend =
     (Backend_init 5.991 50)
       \<lparr>keyframeCurr := Some 11,
        kfIdToCovKfThenVertex := [(0, 10, 1), (1, 11, 4)],
        mptIdToMptThenVertex := [(5, 30, 2), (6, 31, 3)],
        edgeToKfThenMpt := [(1, 10, 30), (2, 11, 30), (3, 10, 31), (4, 11, 31)],
        optimizer := \<lparr>o_poseVertices = [1, 4], o_mptVertices = [2, 3], o_edges = [1, 2, 3, 4]\<rparr>\<rparr>"

definition built_edge :: "nat \<Rightarrow> nat \<Rightarrow> nat \<Rightarrow> Vector2d \<Rightarrow> BinaryEdgeProjection" where
  "built_edge e v0 v1 z =
     \<lparr>e_id = e, e_vertex0 = v0, e_vertex1 = v1, e_measurement = z,
      e_information = ((1, 0), (0, 1)), e_robustKernel = Some deltaRGBD, e_level = 0,
      e_chi2 = 0\<rparr>"

definition built_store :: store where
  "built_store =
     ba_store
       \<lparr>poseVertices := (poseVertices blank_store)
          (1 := \<lparr>vp_id = 1, vp_estimate = SE3 (0, 0, 0, 1) (0, 0, 0), vp_fixed = True\<rparr>,
           4 := \<lparr>vp_id = 4, vp_estimate = SE3 (0, 0, 0, 1) (0, 0, 0), vp_fixed = False\<rparr>),
        mptVertices := (mptVertices blank_store)
          (2 := \<lparr>vm_id = 2, vm_estimate = (100, 120, 1), vm_marginalized = True\<rparr>,
           3 := \<lparr>vm_id = 3, vm_estimate = (50, 60, 1), vm_marginalized = True\<rparr>),
        edges := (edges blank_store)
          (1 := built_edge 1 1 2 (100, 120), 2 := built_edge 2 4 2 (101, 121),
           3 := built_edge 3 1 3 (50, 60), 4 := built_edge 4 4 3 (90, 60))\<rparr>"

text \<open>
  A fuse step.  Keyframes at addresses 10 and 12 both have keypoint 3 matched to the old
  mappoint 5.  The new mappoints 7, 8 and 9 are at addresses 40, 41 and 42.  At keyframe
  10, mappoint 7 matches keypoint 3 at distance 30, mappoint 8 matches keypoint 3 at
  distance 20, and mappoint 9 matches the empty keypoint 4 at distance 25; at keyframe 12,
  mappoint 7 matches keypoint 3 at distance 20 and mappoint 8 matches keypoint 6 at
  distance 60, above the threshold 50.
\<close>

definition fuse_store :: store where
  "fuse_store =
     blank_store
       \<lparr>frames := (\<lambda>p. blank_frame)
          (10 := blank_frame\<lparr>f_id := 0, f_observedMappoints := [(3, 5)]\<rparr>,
           12 := blank_frame\<lparr>f_id := 2, f_observedMappoints := [(3, 5)]\<rparr>),
        mappoints := (\<lambda>p. blank_mappoint)
          (40 := blank_mappoint\<lparr>m_id := 7\<rparr>, 41 := blank_mappoint\<lparr>m_id := 8\<rparr>,
           42 := blank_mappoint\<lparr>m_id := 9\<rparr>)\<rparr>"

definition fuse_backend :: Backend where
  "fuse_backend =
     (Backend_init 5.991 50)
       \<lparr>keyframeCurr := Some 13, newMptKptIdxMap := [(40, 0), (41, 1), (42, 2)]\<rparr>"

definition fuse_matcher :: matcher where
  "fuse_matcher h kf mpt =
     map_of [((10, 40), (3, 30, True)), ((10, 41), (3, 20, True)), ((10, 42), (4, 25, True)),
             ((12, 40), (3, 20, True)), ((12, 41), (6, 60, True))] (kf, mpt)"

text \<open>
  A round in which a mappoint loses its only observation.  Keyframe 1 (address 11) is the
  only observer of mappoint 6 (address 31), whose keypoint lies 40 pixels from the point;
  the solver used here moves every point estimate by one unit in each round.
\<close>

definition orphan_mm :: MapManager where
  "orphan_mm = \<lparr>mm_keyframes = [(1, 11)], mm_mappoints = [(6, 31)]\<rparr>"

definition orphan_store :: store where
  "orphan_store =
     blank_store
       \<lparr>frames := (\<lambda>p. blank_frame)
          (11 := blank_frame\<lparr>f_id := 1, f_keypoints := [(90, 60)],
                   f_observedMappoints := [(0, 6)]\<rparr>),
        mappoints := (\<lambda>p. blank_mappoint)
          (31 := blank_mappoint\<lparr>m_id := 6, m_position := (50, 60, 1),
                   m_observedByKeyframes := [(1, 0)]\<rparr>)\<rparr>"

definition orphan_backend :: Backend where
  "orphan_backend = (Backend_init 5.991 50)\<lparr>keyframeCurr := Some 11\<rparr>"

definition shift_solver :: solver where
  "shift_solver level iterations opt h =
     (\<lambda>v. vp_estimate (poseVertices h v),
      \<lambda>v. case vm_estimate (mptVertices h v) of (x, y, z) \<Rightarrow> (x + 1, y, z))"

text \<open>
  A round with a keyframe outside the window.  Keyframe 1 (address 11) is the current
  keyframe and has no active covisible keyframe; keyframe 2 (address 12, at translation
  \<open>(5, 0, 0)\<close>) also observes mappoint 6 (address 31).  The containers still hold an entry
  of the round before.  The solver used here moves every pose vertex that is not fixed to
  translation \<open>(2, 0, 0)\<close> and leaves the points where they are.
\<close>

definition window_mm :: MapManager where
  "window_mm = \<lparr>mm_keyframes = [(1, 11), (2, 12)], mm_mappoints = [(6, 31)]\<rparr>"

definition window_store :: store where
  "window_store =
     blank_store
       \<lparr>frames := (\<lambda>p. blank_frame)
          (11 := blank_frame\<lparr>f_id := 1, f_keypoints := [(50, 60)],
                   f_observedMappoints := [(0, 6)]\<rparr>,
           12 := blank_frame\<lparr>f_id := 2, f_T_c_w := SE3 (0, 0, 0, 1) (5, 0, 0),
                   f_keypoints := [(51, 61)], f_observedMappoints := [(0, 6)]\<rparr>),
        mappoints := (\<lambda>p. blank_mappoint)
          (31 := blank_mappoint\<lparr>m_id := 6, m_position := (50, 60, 1),
                   m_observedByKeyframes := [(1, 0), (2, 0)]\<rparr>)\<rparr>"

definition window_backend :: Backend where
  "window_backend =
     (Backend_init 5.991 50)
       \<lparr>keyframeCurr := Some 11, kfIdToFixedKfThenVertex := [(0, 10, 7)]\<rparr>"

definition window_solver :: solver where
  "window_solver level iterations opt h =
     (\<lambda>v. if vp_fixed (poseVertices h v) then vp_estimate (poseVertices h v)
          else SE3 (0, 0, 0, 1) (2, 0, 0),
      \<lambda>v. vm_estimate (mptVertices h v))"

text \<open>
  The same round once the vertices and edges are built: pose vertex 1 for keyframe 1,
  mappoint vertex 2, and the fixed pose vertex 3 for keyframe 2; and the store when
  \<^verbatim>\<open>OptimizeLocalMap\<close> returns.
\<close>

definition window_built :: Backend where
  "window_built =
     (Backend_init 5.991 50)
       \<lparr>keyframeCurr := Some 11,
        kfIdToCovKfThenVertex := [(1, 11, 1)],
        mptIdToMptThenVertex := [(6, 31, 2)],
        kfIdToFixedKfThenVertex := [(2, 12, 3)],
        edgeToKfThenMpt := [(1, 11, 31), (2, 12, 31)],
        optimizer := \<lparr>o_poseVertices = [1, 3], o_mptVertices = [2], o_edges = [1, 2]\<rparr>\<rparr>"

definition window_built_store :: store where
  "window_built_store =
     window_store
       \<lparr>poseVertices := (poseVertices blank_store)
          (1 := \<lparr>vp_id = 1, vp_estimate = SE3 (0, 0, 0, 1) (0, 0, 0), vp_fixed = False\<rparr>,
           3 := \<lparr>vp_id = 3, vp_estimate = SE3 (0, 0, 0, 1) (5, 0, 0), vp_fixed = True\<rparr>),
        mptVertices := (mptVertices blank_store)
          (2 := \<lparr>vm_id = 2, vm_estimate = (50, 60, 1), vm_marginalized = True\<rparr>),
        edges := (edges blank_store)
          (1 := built_edge 1 1 2 (50, 60), 2 := built_edge 2 3 2 (51, 61))\<rparr>"

definition window_round :: store where
  "window_round = two_pass window_solver ba_residual window_mm window_built window_built_store"

section \<open>Properties of the id counters\<close>

lemma factory_step_id: "mp_id (fst (factory_step k c)) = c"
  by (cases k) (simp_all add: createMapPoint0_def createMapPoint_def MapPoint_ctor_def)

lemma factory_step_counter: "snd (factory_step k c) = c + 1"
  by (cases k) (simp_all add: createMapPoint0_def createMapPoint_def)

lemma factory_run_ids:
  "map mp_id (fst (factory_run ks c)) = map (\<lambda>i. c + of_nat i) [0..<length ks]"
proof (induction ks arbitrary: c)
  case Nil
  then show ?case by simp
next
  case (Cons k ks)
  have "map mp_id (fst (factory_run (k # ks) c)) =
          c # map mp_id (fst (factory_run ks (c + 1)))"
    using factory_step_id [of k c] factory_step_counter [of k c]
    by (simp add: split_beta Let_def)
  also have "\<dots> = c # map (\<lambda>i. (c + 1) + of_nat i) [0..<length ks]"
    by (simp add: Cons.IH)
  also have "\<dots> = map (\<lambda>i. c + of_nat i) [0..<length (k # ks)]"
    by (simp add: upt_rec [of 0 "Suc (length ks)"] map_Suc_upt [symmetric] ac_simps
          del: upt_Suc)
  finally show ?case .
qed

lemma frames_run_ids:
  "map f_id (fst (frames_run ts c)) = map (\<lambda>i. c + of_nat i) [0..<length ts]"
proof (induction ts arbitrary: c)
  case Nil
  then show ?case by simp
next
  case (Cons t ts)
  have "map f_id (fst (frames_run (t # ts) c)) = c # map f_id (fst (frames_run ts (c + 1)))"
    by (simp add: split_beta Let_def CreateFrame_def)
  also have "\<dots> = c # map (\<lambda>i. (c + 1) + of_nat i) [0..<length ts]"
    by (simp add: Cons.IH)
  also have "\<dots> = map (\<lambda>i. c + of_nat i) [0..<length (t # ts)]"
    by (simp add: upt_rec [of 0 "Suc (length ts)"] map_Suc_upt [symmetric] ac_simps
          del: upt_Suc)
  finally show ?case .
qed

text \<open>While the counter does not wrap, the ids it hands out increase strictly.\<close>

lemma counter_ids_increasing:
  fixes c :: size_t
  assumes "unat c + n \<le> 2 ^ 64"
  shows "sorted_wrt (<) (map (\<lambda>i. c + of_nat i) [0..<n])"
proof -
  have u: "unat (c + of_nat i) = unat c + i" if "i < n" for i
  proof -
    have "unat c + i < 2 ^ 64" using that assms by simp
    then show ?thesis
      by (simp add: unat_word_ariths unat_of_nat take_bit_eq_mod)
  qed
  have "c + of_nat i < c + of_nat j" if "i < j" "j < n" for i j
    using that u [of i] u [of j] by (simp add: word_less_nat_alt)
  then show ?thesis
    by (simp add: sorted_wrt_map sorted_wrt_iff_nth_less)
qed

text \<open>
  C9 (as amended).  Mappoints made by the two \<^verbatim>\<open>createMapPoint\<close> overloads, and keyframes
  made by \<^verbatim>\<open>CreateFrame\<close>, take their ids from the counter of their kind: the k-th object
  made from counter value \<open>c\<close> has id \<open>c + k\<close>.  As long as the 64-bit counter does not
  wrap, these ids increase strictly in the order of construction, so none is used twice.
  (All ids are unsigned 64-bit words, hence non-negative.)
\<close>

theorem ids_from_counter:
  assumes "unat c + length ks \<le> 2 ^ 64" and "unat c' + length ts \<le> 2 ^ 64"
  shows "map mp_id (fst (factory_run ks c)) = map (\<lambda>i. c + of_nat i) [0..<length ks]
       \<and> sorted_wrt (<) (map mp_id (fst (factory_run ks c)))
       \<and> distinct (map mp_id (fst (factory_run ks c)))
       \<and> map f_id (fst (frames_run ts c')) = map (\<lambda>i. c' + of_nat i) [0..<length ts]
       \<and> sorted_wrt (<) (map f_id (fst (frames_run ts c')))
       \<and> distinct (map f_id (fst (frames_run ts c')))"
proof -
  have inc: "sorted_wrt (<) xs \<Longrightarrow> distinct xs" for xs :: "size_t list"
    by (simp add: strict_sorted_iff)
  show ?thesis
    using counter_ids_increasing [OF assms(1)] counter_ids_increasing [OF assms(2)]
      inc [of "map (\<lambda>i. c + of_nat i) [0..<length ks]"]
      inc [of "map (\<lambda>i. c' + of_nat i) [0..<length ts]"]
    by (simp add: factory_run_ids frames_run_ids del: upt_Suc)
qed

theorem ids_from_counter_witness:
  "unat (7 :: size_t) + length [CreateEmpty, Create (1, 2, 3) (0, 0, 1) (4, 5) [] (Some 10),
       CreateEmpty] \<le> 2 ^ 64
   \<and> unat (0 :: size_t) + length [0.5 :: real, 1.5] \<le> 2 ^ 64
   \<and> map mp_id (fst (factory_run [CreateEmpty, Create (1, 2, 3) (0, 0, 1) (4, 5) [] (Some 10),
       CreateEmpty] 7)) = [7, 8, 9]
   \<and> distinct (map mp_id (fst (factory_run [CreateEmpty,
       Create (1, 2, 3) (0, 0, 1) (4, 5) [] (Some 10), CreateEmpty] 7)))
   \<and> map f_id (fst (frames_run [0.5, 1.5] 0)) = [0, 1]
   \<and> distinct (map f_id (fst (frames_run [0.5, 1.5] 0)))"
  using ids_from_counter [of 7 "[CreateEmpty, Create (1, 2, 3) (0, 0, 1) (4, 5) [] (Some 10),
    CreateEmpty]" 0 "[0.5, 1.5]"]
  by (simp add: upt_rec)

text \<open>
  C9 as stated fails on the default constructor \<^verbatim>\<open>MapPoint::MapPoint()\<close>: it does not
  consult the counter and gives every mappoint it makes the same id, \<open>2^64 - 1\<close>.  And
  the counter is a 64-bit word: from its largest value the next id handed out is 0.
\<close>

theorem default_constructor_id_counterexample:
  "mp_id MapPoint_default = 18446744073709551615
   \<and> \<not> distinct (map mp_id [MapPoint_default, MapPoint_default])
   \<and> map mp_id (fst (factory_run [CreateEmpty, CreateEmpty] 18446744073709551615))
       = [18446744073709551615, 0]"
  by (simp add: MapPoint_default_def createMapPoint0_def MapPoint_ctor_def)

section \<open>ProcessNewKeyframeAsync replaces the pending input\<close>

lemma insert_range_Nil: "insert_range [] dst = dst"
  by (simp add: insert_range_def)

lemma insert_range_Cons:
  "insert_range ((a, b) # src) dst =
     insert_range src (if map_of dst a \<noteq> None then dst else dst @ [(a, b)])"
  by (simp add: insert_range_def)

lemma insert_range_map_of:
  "map_of (insert_range src dst) k =
     (case map_of dst k of Some v \<Rightarrow> Some v | None \<Rightarrow> map_of src k)"
proof (induction src arbitrary: dst)
  case Nil
  show ?case by (simp add: insert_range_Nil split: option.splits)
next
  case (Cons ab src)
  obtain a b where ab: "ab = (a, b)" by (cases ab)
  show ?case
  proof (cases "map_of dst a")
    case None
    then show ?thesis
      by (simp add: ab insert_range_Cons Cons.IH map_add_def split: option.splits)
  next
    case (Some v)
    then show ?thesis
      by (auto simp add: ab insert_range_Cons Cons.IH split: option.splits)
  qed
qed

lemma insert_range_into_empty: "map_of (insert_range src []) = map_of src"
  by (rule ext) (simp add: insert_range_map_of)

text \<open>
  C8.  After a call, the pending keyframe is the call's keyframe and the two pending maps
  hold exactly the entries of the call's maps, whatever was pending before; hence a call
  after another call leaves the backend as the second call alone does.
\<close>

theorem ProcessNewKeyframeAsync_replaces:
  "keyframeCurr (ProcessNewKeyframeAsync kf oldMap newMap b) = kf
   \<and> map_of (oldMptIdKptIdxMap (ProcessNewKeyframeAsync kf oldMap newMap b)) = map_of oldMap
   \<and> map_of (newMptKptIdxMap (ProcessNewKeyframeAsync kf oldMap newMap b)) = map_of newMap
   \<and> ProcessNewKeyframeAsync kf oldMap newMap (ProcessNewKeyframeAsync kf' oldMap' newMap' b)
       = ProcessNewKeyframeAsync kf oldMap newMap b"
  by (simp add: ProcessNewKeyframeAsync_def insert_range_into_empty)

section \<open>The candidate keyframes of the fuse step\<close>

text \<open>
  Whatever the covisibility lists of the neighbours hold, the candidates are the keyframes
  one hop away from the current keyframe, the current keyframe left out.
\<close>

lemma set_set_insert: "set (set_insert x xs) = insert x (set xs)"
  by (auto simp add: set_insert_def)

lemma neighbor_loop_set:
  "set (neighbor_loop mm kfId ns acc) =
     set acc \<union> (case GetKeyframe mm kfId of
                  None \<Rightarrow> {}
                | Some kf \<Rightarrow> if ns = [] then {} else {kf})"
  unfolding neighbor_loop_def
  by (induction ns arbitrary: acc) (auto simp add: set_set_insert split: option.splits)

lemma covisible_fold_set:
  "set (fold (\<lambda>kfId acc.
                case GetKeyframe mm kfId of
                  None \<Rightarrow> acc
                | Some kf \<Rightarrow>
                    neighbor_loop mm kfId (GetAllCovisibleKfIds (frames h kf)) (set_insert kf acc))
             ids acc) =
     set acc \<union> {kf. \<exists>i \<in> set ids. GetKeyframe mm i = Some kf}"
proof (induction ids arbitrary: acc)
  case Nil
  show ?case by simp
next
  case (Cons i ids)
  show ?case
    by (cases "GetKeyframe mm i")
      (auto simp add: Cons.IH neighbor_loop_set set_set_insert split: if_splits)
qed

lemma candidate_keyframes_one_hop:
  assumes "keyframeCurr b = Some cur"
  shows "\<exists>ks. candidate_keyframes mm b h = Inr ks
           \<and> set ks = {kf. \<exists>i \<in> set (GetAllCovisibleKfIds (frames h cur)).
                              GetKeyframe mm i = Some kf} - {cur}"
  using assms
  by (auto simp add: candidate_keyframes_def Let_def covisible_loop_def covisible_fold_set)

text \<open>
  C1.  On the chain of three keyframes the two-hop set of keyframe 0 is \<open>{11, 12}\<close>
  (keyframe 1 and, through it, keyframe 2).  The code returns keyframe 1 only: the inner
  loop looks up the outer id again, so no keyframe two hops away is ever added.
\<close>

theorem candidate_keyframes_chain:
  "GetAllCovisibleKfIds (frames chain_store 11) = [0, 2]
   \<and> GetKeyframe chain_mm 2 = Some 12
   \<and> candidate_keyframes chain_mm chain_backend chain_store = Inr [11]"
  by (simp add: candidate_keyframes_def covisible_loop_def neighbor_loop_def set_insert_def
      GetAllCovisibleKfIds_def GetKeyframe_def chain_mm_def chain_store_def chain_backend_def
      blank_store_def blank_frame_def Backend_init_def)

section \<open>Lookup misses in the edge-building loop\<close>

text \<open>A step of the edge loop whose keyframe lookup misses fails, whatever the state.\<close>

lemma edge_step_lookup_miss:
  "GetKeyframe mm kfId = None \<Longrightarrow>
   edge_step mm mpt mptVertex (kfId, kptIdx) st = Inl NullPointerDereference"
  by (simp add: edge_step_def split_beta)

text \<open>
  C2.  When an observer of a mappoint resolves to no keyframe, line 237 has already called
  a member function through the null pointer when line 239 tests it.  Here mappoint 5 is
  observed by keyframe 0 and by keyframe 9, which the Map Manager does not hold: the
  vertices are built, and the edge loop fails at the second observer.
\<close>

theorem OptimizeLocalMap_dangling_observer:
  "GetKeyframe dangling_mm 9 = None
   \<and> OptimizeLocalMap solve chi2_of (\<lambda>f. []) dangling_mm dangling_backend dangling_store
       = Inl NullPointerDereference"
  by (simp add: OptimizeLocalMap_def build_edges_def mappoint_edges_step_def edge_step_def
      GetKeypoint_def build_vertices_def keyframe_vertex_step_def mappoint_vertex_step_def
      set_insert_def GetObservingMappointIds_def GetKeyframe_def GetMappoint_def
      dangling_mm_def dangling_store_def dangling_backend_def blank_store_def blank_frame_def
      blank_mappoint_def Backend_init_def)

section \<open>The frontend handoff\<close>

lemma SetTcw_simps:
  "mappoints (SetTcw kf T h) = mappoints h"
  "poseVertices (SetTcw kf T h) = poseVertices h"
  "mptVertices (SetTcw kf T h) = mptVertices h"
  "edges (SetTcw kf T h) = edges h"
  "frames (SetTcw kf T h) p = (if p = kf then (frames h kf)\<lparr>f_T_c_w := T\<rparr> else frames h p)"
  by (simp_all add: SetTcw_def)

lemma SetPosition_simps:
  "frames (SetPosition mpt x h) = frames h"
  "poseVertices (SetPosition mpt x h) = poseVertices h"
  "mptVertices (SetPosition mpt x h) = mptVertices h"
  "edges (SetPosition mpt x h) = edges h"
  "mappoints (SetPosition mpt x h) p =
     (if p = mpt then (mappoints h mpt)\<lparr>m_position := x\<rparr> else mappoints h p)"
  by (simp_all add: SetPosition_def)

lemma write_poses_Nil: "write_poses [] h = h" by (simp add: write_poses_def)
lemma write_poses_Cons: "write_poses ((i, kf, v) # xs) h = write_poses xs (SetTcw kf (vp_estimate (poseVertices h v)) h)"
  by (simp add: write_poses_def)

lemma write_poses_keeps:
  "mappoints (write_poses xs h) = mappoints h \<and> poseVertices (write_poses xs h) = poseVertices h \<and>
   mptVertices (write_poses xs h) = mptVertices h \<and> edges (write_poses xs h) = edges h"
  by (induction xs arbitrary: h) (auto simp: write_poses_Nil write_poses_Cons SetTcw_simps)

lemma write_poses_frames_other:
  "p \<notin> (fst \<circ> snd) ` set xs \<Longrightarrow> frames (write_poses xs h) p = frames h p"
proof (induction xs arbitrary: h)
  case Nil
  show ?case by (simp add: write_poses_Nil)
next
  case (Cons x xs)
  obtain i kf v where x: "x = (i, kf, v)" by (cases x)
  from Cons.prems x have "p \<noteq> kf" "p \<notin> (fst \<circ> snd) ` set xs" by auto
  then show ?case
    by (simp add: x write_poses_Cons Cons.IH SetTcw_simps)
qed

lemma write_poses_frames_fields:
  "(frames (write_poses xs h) p)\<lparr>f_T_c_w := T\<rparr> = (frames h p)\<lparr>f_T_c_w := T\<rparr>"
proof (induction xs arbitrary: h)
  case Nil
  show ?case by (simp add: write_poses_Nil)
next
  case (Cons x xs)
  obtain i kf v where x: "x = (i, kf, v)" by (cases x)
  have "(frames (write_poses (x # xs) h) p)\<lparr>f_T_c_w := T\<rparr> =
        (frames (SetTcw kf (vp_estimate (poseVertices h v)) h) p)\<lparr>f_T_c_w := T\<rparr>"
    by (simp only: x write_poses_Cons Cons.IH)
  also have "\<dots> = (frames h p)\<lparr>f_T_c_w := T\<rparr>"
    by (simp add: SetTcw_simps)
  finally show ?case .
qed

lemma write_poses_writes:
  "distinct (map (fst \<circ> snd) xs) \<Longrightarrow> (i, kf, v) \<in> set xs \<Longrightarrow>
   f_T_c_w (frames (write_poses xs h) kf) = vp_estimate (poseVertices h v)"
proof (induction xs arbitrary: h)
  case Nil
  then show ?case by simp
next
  case (Cons x xs)
  obtain i' kf' v' where x: "x = (i', kf', v')" by (cases x)
  show ?case
  proof (cases "(i, kf, v) = x")
    case True
    with Cons.prems x have "kf \<notin> (fst \<circ> snd) ` set xs" by auto
    with True x show ?thesis
      by (simp add: write_poses_Cons write_poses_frames_other SetTcw_simps)
  next
    case False
    with Cons.prems have "(i, kf, v) \<in> set xs" "distinct (map (fst \<circ> snd) xs)" by (auto simp: comp_def)
    from Cons.IH [OF this(2) this(1)] show ?thesis
      by (simp add: x write_poses_Cons SetTcw_simps)
  qed
qed

lemma write_positions_Nil: "write_positions [] h = h" by (simp add: write_positions_def)
lemma write_positions_Cons: "write_positions ((i, mpt, v) # xs) h = write_positions xs (if \<not> m_outlier (mappoints h mpt)
             then SetPosition mpt (vm_estimate (mptVertices h v)) h
             else h)"
  by (simp add: write_positions_def)

lemma write_positions_keeps:
  "frames (write_positions xs h) = frames h \<and> poseVertices (write_positions xs h) = poseVertices h \<and>
   mptVertices (write_positions xs h) = mptVertices h \<and> edges (write_positions xs h) = edges h"
proof (induction xs arbitrary: h)
  case Nil
  show ?case by (simp add: write_positions_Nil)
next
  case (Cons x xs)
  obtain i mpt v where x: "x = (i, mpt, v)" by (cases x)
  show ?case
    by (simp add: x write_positions_Cons Cons.IH SetPosition_simps)
qed

lemma write_positions_fields:
  "(mappoints (write_positions xs h) p)\<lparr>m_position := y\<rparr> = (mappoints h p)\<lparr>m_position := y\<rparr>"
proof (induction xs arbitrary: h)
  case Nil
  show ?case by (simp add: write_positions_Nil)
next
  case (Cons x xs)
  obtain i mpt v where x: "x = (i, mpt, v)" by (cases x)
  let ?h = "if \<not> m_outlier (mappoints h mpt)
            then SetPosition mpt (vm_estimate (mptVertices h v)) h else h"
  have "(mappoints (write_positions (x # xs) h) p)\<lparr>m_position := y\<rparr> =
        (mappoints ?h p)\<lparr>m_position := y\<rparr>"
    by (simp only: x write_positions_Cons Cons.IH)
  also have "\<dots> = (mappoints h p)\<lparr>m_position := y\<rparr>"
    by (simp add: SetPosition_simps)
  finally show ?case .
qed

lemma write_positions_outlier:
  "m_outlier (mappoints (write_positions xs h) p) = m_outlier (mappoints h p)"
proof -
  have "m_outlier ((mappoints (write_positions xs h) p)\<lparr>m_position := (0, 0, 0)\<rparr>) =
        m_outlier ((mappoints h p)\<lparr>m_position := (0, 0, 0)\<rparr>)"
    by (simp only: write_positions_fields)
  then show ?thesis by simp
qed

lemma write_positions_other:
  "p \<notin> (fst \<circ> snd) ` set xs \<Longrightarrow> mappoints (write_positions xs h) p = mappoints h p"
proof (induction xs arbitrary: h)
  case Nil
  show ?case by (simp add: write_positions_Nil)
next
  case (Cons x xs)
  obtain i mpt v where x: "x = (i, mpt, v)" by (cases x)
  from Cons.prems x have "p \<noteq> mpt" "p \<notin> (fst \<circ> snd) ` set xs" by auto
  then show ?case
    by (simp add: x write_positions_Cons Cons.IH SetPosition_simps)
qed

lemma write_positions_outlier_kept:
  "m_outlier (mappoints h p) \<Longrightarrow> mappoints (write_positions xs h) p = mappoints h p"
proof (induction xs arbitrary: h)
  case Nil
  then show ?case by (simp add: write_positions_Nil)
next
  case (Cons x xs)
  obtain i mpt v where x: "x = (i, mpt, v)" by (cases x)
  show ?case
  proof (cases "m_outlier (mappoints h mpt)")
    case True
    with Cons show ?thesis by (simp add: x write_positions_Cons)
  next
    case False
    with Cons.prems have ne: "mpt \<noteq> p" by auto
    let ?h = "SetPosition mpt (vm_estimate (mptVertices h v)) h"
    have "m_outlier (mappoints ?h p)" using Cons.prems ne by (simp add: SetPosition_simps)
    from Cons.IH [OF this] False ne show ?thesis
      by (simp add: x write_positions_Cons SetPosition_simps)
  qed
qed

lemma write_positions_writes:
  "distinct (map (fst \<circ> snd) xs) \<Longrightarrow> (i, mpt, v) \<in> set xs \<Longrightarrow> \<not> m_outlier (mappoints h mpt) \<Longrightarrow>
   m_position (mappoints (write_positions xs h) mpt) = vm_estimate (mptVertices h v)"
proof (induction xs arbitrary: h)
  case Nil
  then show ?case by simp
next
  case (Cons x xs)
  obtain i' mpt' v' where x: "x = (i', mpt', v')" by (cases x)
  show ?case
  proof (cases "(i, mpt, v) = x")
    case True
    with Cons.prems x have "mpt \<notin> (fst \<circ> snd) ` set xs" by auto
    with True x Cons.prems(3) show ?thesis
      by (simp add: write_positions_Cons write_positions_other SetPosition_simps)
  next
    case False
    with Cons.prems have "(i, mpt, v) \<in> set xs" "distinct (map (fst \<circ> snd) xs)" by (auto simp: comp_def)
    from Cons.IH [OF this(2) this(1)] Cons.prems(3) show ?thesis
      by (simp add: x write_positions_Cons SetPosition_simps)
  qed
qed


lemma update_fresh_key: "k \<notin> fst ` set al \<Longrightarrow> AList.update k v al = al @ [(k, v)]"
  by (induction al) auto

lemma rebuild_fold_append:
  assumes "distinct (map fst xs)" and "fst ` set xs \<inter> fst ` set acc = {}"
  shows "fold (\<lambda>(mptId, mpt, mptVertex) tm.
             if m_outlier (mappoints h mpt) then tm else AList.update mptId mpt tm) xs acc =
         acc @ map (\<lambda>(mptId, mpt, mptVertex). (mptId, mpt))
                 (filter (\<lambda>(mptId, mpt, mptVertex). \<not> m_outlier (mappoints h mpt)) xs)"
  using assms
proof (induction xs arbitrary: acc)
  case Nil
  show ?case by simp
next
  case (Cons x xs)
  obtain i m v where x: "x = (i, m, v)" by (cases x)
  from Cons.prems x have d: "distinct (map fst xs)" and fresh: "i \<notin> fst ` set acc"
    and ixs: "i \<notin> fst ` set xs" and disj: "fst ` set xs \<inter> fst ` set acc = {}"
    by auto
  show ?case
  proof (cases "m_outlier (mappoints h m)")
    case True
    then show ?thesis using Cons.IH [OF d disj] by (simp add: x)
  next
    case False
    have "fst ` set xs \<inter> fst ` set (acc @ [(i, m)]) = {}" using disj ixs by auto
    from Cons.IH [OF d this] False fresh show ?thesis
      by (simp add: x update_fresh_key)
  qed
qed

lemma rebuild_trackingMap_survivors:
  "distinct (map fst (mptIdToMptThenVertex b)) \<Longrightarrow>
   rebuild_trackingMap (mptIdToMptThenVertex b) h = surviving_mappoints b h"
  using rebuild_fold_append [of "mptIdToMptThenVertex b" "[]" h]
  by (simp add: rebuild_trackingMap_def surviving_mappoints_def)

lemmas handoff_eval = UpdateFrontendTrackingMap_def needs_reset_def reset_tracking_def
  rebuild_trackingMap_def write_poses_def write_positions_def SetTcw_def SetPosition_def
  GetAllMappoints_def handoff_mm_def handoff_store_def handoff_backend_def
  all_outlier_backend_def stale_frontend_def current_frontend_def blank_store_def
  blank_frame_def blank_mappoint_def Backend_init_def

text \<open>
  C4.  When the frontend's reference keyframe is absent, or its id differs from the id of
  the keyframe just processed, the callback returns; the reference keyframe becomes the
  keyframe just processed, and the tracking map becomes exactly the non-outlier mappoints
  that have a vertex in this round, unless fewer than 100 of them survive, in which case
  it becomes the Map Manager's snapshot of all mappoints.  In particular, when every
  mappoint with a vertex is an outlier, the snapshot is installed.  (The keys of
  \<^verbatim>\<open>mptIdToMptThenVertex_\<close> are distinct, as in any \<^verbatim>\<open>unordered_map\<close>.)
\<close>

theorem handoff_resets_tracking:
  assumes "refKeyframe fe = None \<or>
           (\<exists>r cur. refKeyframe fe = Some r \<and> keyframeCurr b = Some cur \<and>
                    f_id (frames h r) \<noteq> f_id (frames h cur))"
    and "distinct (map fst (mptIdToMptThenVertex b))"
  shows "\<exists>fe' h'. UpdateFrontendTrackingMap mm b fe h = Inr (fe', h')
           \<and> refKeyframe fe' = keyframeCurr b
           \<and> trackingMap fe' =
               (if length (surviving_mappoints b h) < 100 then GetAllMappoints mm
                else surviving_mappoints b h)
           \<and> ((\<forall>(mptId, mpt, mptVertex) \<in> set (mptIdToMptThenVertex b).
                  m_outlier (mappoints h mpt))
                \<longrightarrow> trackingMap fe' = GetAllMappoints mm)"
proof -
  from assms(1) have reset: "needs_reset b fe h = Inr True"
    by (auto simp: needs_reset_def)
  have all_out: "surviving_mappoints b h = []"
    if "\<forall>(mptId, mpt, mptVertex) \<in> set (mptIdToMptThenVertex b). m_outlier (mappoints h mpt)"
    using that by (auto simp: surviving_mappoints_def filter_empty_conv)
  show ?thesis
    using all_out
    by (simp add: UpdateFrontendTrackingMap_def reset reset_tracking_def
        rebuild_trackingMap_survivors [OF assms(2)])
qed

theorem handoff_resets_tracking_witness:
  "refKeyframe stale_frontend = Some 10 \<and> keyframeCurr all_outlier_backend = Some 11
   \<and> f_id (frames handoff_store 10) \<noteq> f_id (frames handoff_store 11)
   \<and> distinct (map fst (mptIdToMptThenVertex all_outlier_backend))
   \<and> m_outlier (mappoints handoff_store 30)
   \<and> (case UpdateFrontendTrackingMap handoff_mm all_outlier_backend stale_frontend handoff_store of
        Inl err \<Rightarrow> False
      | Inr (fe', h') \<Rightarrow>
          refKeyframe fe' = Some 11 \<and> trackingMap fe' = [(5, 30), (6, 31)])"
  using handoff_resets_tracking [of stale_frontend all_outlier_backend handoff_store handoff_mm]
  by (simp add: handoff_eval)

text \<open>
  C10.  When the frontend's reference keyframe is present and has the id of the keyframe
  just processed, the callback returns the frontend's two structures unchanged.  In the
  store, a keyframe changes only if it has a pose vertex, and then only in its pose; a
  mappoint changes only if it has a vertex and is not an outlier, and then only in its
  position; vertices and edges do not change.
\<close>

theorem handoff_same_keyframe:
  assumes "refKeyframe fe = Some r" and "keyframeCurr b = Some cur"
    and "f_id (frames h r) = f_id (frames h cur)"
  shows "\<exists>h'. UpdateFrontendTrackingMap mm b fe h = Inr (fe, h')
           \<and> poseVertices h' = poseVertices h \<and> mptVertices h' = mptVertices h
           \<and> edges h' = edges h
           \<and> (\<forall>p. frames h' p =
                 (if p \<in> (fst \<circ> snd) ` set (kfIdToCovKfThenVertex b)
                  then (frames h p)\<lparr>f_T_c_w := f_T_c_w (frames h' p)\<rparr> else frames h p))
           \<and> (\<forall>p. mappoints h' p =
                 (if p \<in> (fst \<circ> snd) ` set (mptIdToMptThenVertex b) \<and> \<not> m_outlier (mappoints h p)
                  then (mappoints h p)\<lparr>m_position := m_position (mappoints h' p)\<rparr>
                  else mappoints h p))"
proof -
  let ?h1 = "write_poses (kfIdToCovKfThenVertex b) h"
  let ?h2 = "write_positions (mptIdToMptThenVertex b) ?h1"
  from assms have "needs_reset b fe h = Inr False"
    by (simp add: needs_reset_def)
  then have run: "UpdateFrontendTrackingMap mm b fe h = Inr (fe, ?h2)"
    by (simp add: UpdateFrontendTrackingMap_def)
  have pv: "poseVertices ?h2 = poseVertices h" "mptVertices ?h2 = mptVertices h"
    "edges ?h2 = edges h"
    by (simp_all add: write_positions_keeps write_poses_keeps)
  have fr: "frames ?h2 p =
      (if p \<in> (fst \<circ> snd) ` set (kfIdToCovKfThenVertex b)
       then (frames h p)\<lparr>f_T_c_w := f_T_c_w (frames ?h2 p)\<rparr> else frames h p)" for p
  proof -
    have "frames ?h2 p = frames ?h1 p" by (simp add: write_positions_keeps)
    moreover have "frames ?h1 p = (frames ?h1 p)\<lparr>f_T_c_w := f_T_c_w (frames ?h1 p)\<rparr>" by simp
    moreover have "\<dots> = (frames h p)\<lparr>f_T_c_w := f_T_c_w (frames ?h1 p)\<rparr>"
      by (rule write_poses_frames_fields)
    moreover have "p \<notin> (fst \<circ> snd) ` set (kfIdToCovKfThenVertex b) \<Longrightarrow> frames ?h1 p = frames h p"
      by (rule write_poses_frames_other)
    ultimately show ?thesis by simp
  qed
  have mp: "mappoints ?h2 p =
      (if p \<in> (fst \<circ> snd) ` set (mptIdToMptThenVertex b) \<and> \<not> m_outlier (mappoints h p)
       then (mappoints h p)\<lparr>m_position := m_position (mappoints ?h2 p)\<rparr>
       else mappoints h p)" for p
  proof -
    have same: "mappoints ?h1 = mappoints h" by (simp add: write_poses_keeps)
    have "mappoints ?h2 p = (mappoints ?h2 p)\<lparr>m_position := m_position (mappoints ?h2 p)\<rparr>" by simp
    moreover have "\<dots> = (mappoints ?h1 p)\<lparr>m_position := m_position (mappoints ?h2 p)\<rparr>"
      by (rule write_positions_fields)
    moreover have "p \<notin> (fst \<circ> snd) ` set (mptIdToMptThenVertex b) \<Longrightarrow> mappoints ?h2 p = mappoints ?h1 p"
      by (rule write_positions_other)
    moreover have "m_outlier (mappoints ?h1 p) \<Longrightarrow> mappoints ?h2 p = mappoints ?h1 p"
      by (rule write_positions_outlier_kept)
    ultimately show ?thesis using same by auto
  qed
  show ?thesis
    using run pv fr mp by blast
qed

theorem handoff_same_keyframe_witness:
  "refKeyframe current_frontend = Some 11 \<and> keyframeCurr handoff_backend = Some 11
   \<and> (case UpdateFrontendTrackingMap handoff_mm handoff_backend current_frontend handoff_store of
        Inl err \<Rightarrow> False
      | Inr (fe', h') \<Rightarrow>
          fe' = current_frontend
          \<and> frames h' 10 = frames handoff_store 10
          \<and> frames h' 11 = (frames handoff_store 11)\<lparr>f_T_c_w := SE3 (0, 0, 0, 1) (2, 0, 0)\<rparr>
          \<and> mappoints h' 30 = mappoints handoff_store 30
          \<and> mappoints h' 31 = (mappoints handoff_store 31)\<lparr>m_position := (4, 5, 7)\<rparr>)"
  using handoff_same_keyframe [of current_frontend 11 handoff_backend 11 handoff_store handoff_mm]
  by (simp add: handoff_eval)

section \<open>The two outlier sweeps\<close>

text \<open>How each operation on the store acts on its components.\<close>

lemma computeError_simps:
  "frames (computeError c e h) = frames h"
  "mappoints (computeError c e h) = mappoints h"
  "poseVertices (computeError c e h) = poseVertices h"
  "mptVertices (computeError c e h) = mptVertices h"
  "edges (computeError c e h) e' =
     (if e' = e then (edges h e)\<lparr>e_chi2 := edge_chi2 c h e\<rparr> else edges h e')"
  by (simp_all add: computeError_def)

lemma setLevel_simps:
  "frames (setLevel e l h) = frames h"
  "mappoints (setLevel e l h) = mappoints h"
  "poseVertices (setLevel e l h) = poseVertices h"
  "mptVertices (setLevel e l h) = mptVertices h"
  "edges (setLevel e l h) e' = (if e' = e then (edges h e)\<lparr>e_level := l\<rparr> else edges h e')"
  by (simp_all add: setLevel_def)

lemma setRobustKernel_simps:
  "frames (setRobustKernel e rk h) = frames h"
  "mappoints (setRobustKernel e rk h) = mappoints h"
  "poseVertices (setRobustKernel e rk h) = poseVertices h"
  "mptVertices (setRobustKernel e rk h) = mptVertices h"
  "edges (setRobustKernel e rk h) e' =
     (if e' = e then (edges h e)\<lparr>e_robustKernel := rk\<rparr> else edges h e')"
  by (simp_all add: setRobustKernel_def)

lemma set_optimized_simps:
  "frames (set_optimized mpt v h) = frames h"
  "poseVertices (set_optimized mpt v h) = poseVertices h"
  "mptVertices (set_optimized mpt v h) = mptVertices h"
  "edges (set_optimized mpt v h) = edges h"
  "mappoints (set_optimized mpt v h) p =
     (if p = mpt then (mappoints h mpt)\<lparr>m_optimized := v\<rparr> else mappoints h p)"
  by (simp_all add: set_optimized_def)

lemma optimize_simps:
  "frames (optimize solve l n opt h) = frames h"
  "mappoints (optimize solve l n opt h) = mappoints h"
  "edges (optimize solve l n opt h) = edges h"
  "poseVertices (optimize solve l n opt h) v =
     (if v \<in> set (o_poseVertices opt)
      then (poseVertices h v)\<lparr>vp_estimate := fst (solve l n opt h) v\<rparr> else poseVertices h v)"
  "mptVertices (optimize solve l n opt h) v =
     (if v \<in> set (o_mptVertices opt)
      then (mptVertices h v)\<lparr>vm_estimate := snd (solve l n opt h) v\<rparr> else mptVertices h v)"
  by (simp_all add: optimize_def split_beta)

lemma Remove_keeps:
  "poseVertices (RemoveObservedMappoint mm kf i h) = poseVertices h"
  "mptVertices (RemoveObservedMappoint mm kf i h) = mptVertices h"
  "edges (RemoveObservedMappoint mm kf i h) = edges h"
  by (simp_all add: RemoveObservedMappoint_def Let_def split: option.splits)

lemma Remove_frames:
  "frames (RemoveObservedMappoint mm kf i h) p =
     (if p = kf
      then (frames h kf)\<lparr>f_observedMappoints :=
             filter (\<lambda>(kptIdx, j). j \<noteq> i) (f_observedMappoints (frames h kf))\<rparr>
      else frames h p)"
  by (simp add: RemoveObservedMappoint_def Let_def split: option.splits)

lemma Remove_m_id:
  "m_id (mappoints (RemoveObservedMappoint mm kf i h) p) = m_id (mappoints h p)"
  by (simp add: RemoveObservedMappoint_def Let_def split: option.splits)

lemma Remove_m_optimized:
  "m_optimized (mappoints (RemoveObservedMappoint mm kf i h) p) = m_optimized (mappoints h p)"
  by (simp add: RemoveObservedMappoint_def Let_def split: option.splits)

lemma Remove_observed:
  "observed (RemoveObservedMappoint mm kf i h) p =
     (if p = kf then observed h kf - {i} else observed h p)"
  by (auto simp add: observed_def GetObservingMappointIds_def Remove_frames)

lemma observed_simps:
  "observed (computeError c e h) p = observed h p"
  "observed (setLevel e l h) p = observed h p"
  "observed (setRobustKernel e rk h) p = observed h p"
  "observed (set_optimized mpt v h) p = observed h p"
  by (simp_all add: observed_def computeError_simps setLevel_simps setRobustKernel_simps
      set_optimized_simps)

lemma observed_optimize: "observed (optimize solve l n opt h) p = observed h p"
  by (simp add: observed_def optimize_simps)

lemma Remove_observed_subset:
  "observed (RemoveObservedMappoint mm kf i h) p \<subseteq> observed h p"
  by (auto simp add: observed_def GetObservingMappointIds_def Remove_frames)

lemma Remove_observed_gone:
  "i \<notin> observed (RemoveObservedMappoint mm kf i h) kf"
  by (auto simp add: observed_def GetObservingMappointIds_def Remove_frames)

text \<open>Every step of a sweep respects \<open>sweep_frame\<close>.\<close>

lemma sweep_frame_refl: "sweep_frame h h"
  by (simp add: sweep_frame_def)

lemma sweep_frame_trans: "sweep_frame h h1 \<Longrightarrow> sweep_frame h1 h2 \<Longrightarrow> sweep_frame h h2"
  unfolding sweep_frame_def by (metis subset_trans)

lemma sweep_frame_chi2: "sweep_frame h h' \<Longrightarrow> edge_chi2 c h' e = edge_chi2 c h e"
  by (simp add: sweep_frame_def edge_chi2_def)

lemma sweep_frame_m_id: "sweep_frame h h' \<Longrightarrow> m_id (mappoints h' p) = m_id (mappoints h p)"
  by (simp add: sweep_frame_def)

lemma sweep_frame_observed: "sweep_frame h h' \<Longrightarrow> i \<notin> observed h p \<Longrightarrow> i \<notin> observed h' p"
  by (auto simp add: sweep_frame_def)

lemma sweep_frame_computeError: "sweep_frame h (computeError c e h)"
  by (simp add: sweep_frame_def computeError_simps observed_def)

lemma sweep_frame_setLevel: "sweep_frame h (setLevel e l h)"
  by (simp add: sweep_frame_def setLevel_simps observed_def)

lemma sweep_frame_setRobustKernel: "sweep_frame h (setRobustKernel e rk h)"
  by (simp add: sweep_frame_def setRobustKernel_simps observed_def)

lemma sweep_frame_Remove: "sweep_frame h (RemoveObservedMappoint mm kf i h)"
  by (simp add: sweep_frame_def Remove_keeps Remove_m_id Remove_observed_subset)

lemma sweep_frame_set_optimized: "sweep_frame h (set_optimized mpt v h)"
  by (simp add: sweep_frame_def observed_def set_optimized_simps)

lemma sweep1_step_eq:
  "sweep1_step c mm th (e, kf, mpt) h =
     (if edge_chi2 c h e > th
      then setRobustKernel e None (setLevel e 1
             (RemoveObservedMappoint mm kf (m_id (mappoints h mpt)) (computeError c e h)))
      else setRobustKernel e None (computeError c e h))"
  by (simp add: sweep1_step_def Let_def computeError_simps)

lemma sweep2_step_eq:
  "sweep2_step c mm th (e, kf, mpt) h =
     (if e_level (edges h e) = 0 \<and> edge_chi2 c h e > th
      then set_optimized mpt True
             (RemoveObservedMappoint mm kf (m_id (mappoints h mpt)) (computeError c e h))
      else set_optimized mpt True (computeError c e h))"
  by (simp add: sweep2_step_def Let_def computeError_simps)

lemma sweep1_step_frame: "sweep_frame h (sweep1_step c mm th x h)"
proof -
  obtain e kf mpt where x: "x = (e, kf, mpt)" by (cases x)
  let ?h1 = "computeError c e h"
  let ?h2 = "RemoveObservedMappoint mm kf (m_id (mappoints h mpt)) ?h1"
  have 1: "sweep_frame h ?h1" by (rule sweep_frame_computeError)
  have 2: "sweep_frame h ?h2" by (rule sweep_frame_trans [OF 1 sweep_frame_Remove])
  have 3: "sweep_frame h (setLevel e 1 ?h2)" by (rule sweep_frame_trans [OF 2 sweep_frame_setLevel])
  have "sweep_frame h (setRobustKernel e None ?h1)"
    by (rule sweep_frame_trans [OF 1 sweep_frame_setRobustKernel])
  moreover have "sweep_frame h (setRobustKernel e None (setLevel e 1 ?h2))"
    by (rule sweep_frame_trans [OF 3 sweep_frame_setRobustKernel])
  ultimately show ?thesis
    by (simp add: x sweep1_step_eq)
qed

lemma sweep2_step_frame: "sweep_frame h (sweep2_step c mm th x h)"
proof -
  obtain e kf mpt where x: "x = (e, kf, mpt)" by (cases x)
  let ?h1 = "computeError c e h"
  let ?h2 = "RemoveObservedMappoint mm kf (m_id (mappoints h mpt)) ?h1"
  have 1: "sweep_frame h ?h1" by (rule sweep_frame_computeError)
  have 2: "sweep_frame h ?h2" by (rule sweep_frame_trans [OF 1 sweep_frame_Remove])
  have "sweep_frame h (set_optimized mpt True ?h1)"
    by (rule sweep_frame_trans [OF 1 sweep_frame_set_optimized])
  moreover have "sweep_frame h (set_optimized mpt True ?h2)"
    by (rule sweep_frame_trans [OF 2 sweep_frame_set_optimized])
  ultimately show ?thesis
    by (simp add: x sweep2_step_eq)
qed

lemma fold_sweep_frame:
  "(\<And>x h. sweep_frame h (f x h)) \<Longrightarrow> sweep_frame h (fold f xs h)"
proof (induction xs arbitrary: h)
  case Nil
  show ?case by (simp add: sweep_frame_refl)
next
  case (Cons x xs)
  have "sweep_frame (f x h) (fold f xs (f x h))" by (rule Cons.IH) (rule Cons.prems)
  with Cons.prems [of h x] show ?case
    by (simp add: sweep_frame_trans)
qed

lemma sweep1_fold_frame: "sweep_frame h (fold (sweep1_step c mm th) xs h)"
  by (rule fold_sweep_frame) (rule sweep1_step_frame)

lemma sweep2_fold_frame: "sweep_frame h (fold (sweep2_step c mm th) xs h)"
  by (rule fold_sweep_frame) (rule sweep2_step_frame)

text \<open>The effect of one step, and of a whole sweep, on an edge and on a keyframe.\<close>

lemma sweep1_step_edge:
  "e_robustKernel (edges (sweep1_step c mm th (e', kf, mpt) h) e) =
     (if e = e' then None else e_robustKernel (edges h e))"
  "e_level (edges (sweep1_step c mm th (e', kf, mpt) h) e) =
     (if e = e' \<and> edge_chi2 c h e' > th then 1 else e_level (edges h e))"
  "e_chi2 (edges (sweep1_step c mm th (e', kf, mpt) h) e) =
     (if e = e' then edge_chi2 c h e' else e_chi2 (edges h e))"
  by (simp_all add: sweep1_step_eq setRobustKernel_simps setLevel_simps Remove_keeps
      computeError_simps)

lemma sweep1_step_removes:
  "edge_chi2 c h e > th \<Longrightarrow>
   m_id (mappoints h mpt) \<notin> observed (sweep1_step c mm th (e, kf, mpt) h) kf"
  using Remove_observed_gone [of "m_id (mappoints h mpt)" mm kf "computeError c e h"]
  by (simp add: sweep1_step_eq observed_def setRobustKernel_simps setLevel_simps)

lemma sweep1_step_observed:
  "observed (sweep1_step c mm th (e, kf', mpt) h) kf =
     (if kf = kf' \<and> edge_chi2 c h e > th then observed h kf - {m_id (mappoints h mpt)}
      else observed h kf)"
  by (simp add: sweep1_step_eq observed_simps Remove_observed)

lemma sweep2_step_edge:
  "e_robustKernel (edges (sweep2_step c mm th (e', kf, mpt) h) e) = e_robustKernel (edges h e)"
  "e_level (edges (sweep2_step c mm th (e', kf, mpt) h) e) = e_level (edges h e)"
  "e_chi2 (edges (sweep2_step c mm th (e', kf, mpt) h) e) =
     (if e = e' then edge_chi2 c h e' else e_chi2 (edges h e))"
  by (simp_all add: sweep2_step_eq set_optimized_simps Remove_keeps computeError_simps)

lemma sweep2_step_removes:
  "e_level (edges h e) = 0 \<Longrightarrow> edge_chi2 c h e > th \<Longrightarrow>
   m_id (mappoints h mpt) \<notin> observed (sweep2_step c mm th (e, kf, mpt) h) kf"
  using Remove_observed_gone [of "m_id (mappoints h mpt)" mm kf "computeError c e h"]
  by (simp add: sweep2_step_eq observed_def set_optimized_simps)

lemma sweep2_step_observed:
  "observed (sweep2_step c mm th (e, kf', mpt) h) kf =
     (if kf = kf' \<and> e_level (edges h e) = 0 \<and> edge_chi2 c h e > th
      then observed h kf - {m_id (mappoints h mpt)}
      else observed h kf)"
  by (simp add: sweep2_step_eq observed_simps Remove_observed)

lemma sweep2_step_optimized:
  "m_optimized (mappoints (sweep2_step c mm th (e, kf, mpt) h) p) =
     (p = mpt \<or> m_optimized (mappoints h p))"
  by (simp add: sweep2_step_eq set_optimized_simps Remove_m_optimized computeError_simps)

lemma sweep1_fold_kernel:
  "e_robustKernel (edges (fold (sweep1_step c mm th) xs h) e) =
     (if e \<in> fst ` set xs then None else e_robustKernel (edges h e))"
proof (induction xs arbitrary: h)
  case Nil
  show ?case by simp
next
  case (Cons x xs)
  obtain e' kf mpt where x: "x = (e', kf, mpt)" by (cases x)
  show ?case
    by (simp add: x Cons.IH sweep1_step_edge)
qed

lemma sweep1_fold_level:
  "e_level (edges (fold (sweep1_step c mm th) xs h) e) =
     (if e \<in> fst ` set xs \<and> edge_chi2 c h e > th then 1 else e_level (edges h e))"
proof (induction xs arbitrary: h)
  case Nil
  show ?case by simp
next
  case (Cons x xs)
  obtain e' kf mpt where x: "x = (e', kf, mpt)" by (cases x)
  have chi: "edge_chi2 c (sweep1_step c mm th (e', kf, mpt) h) a = edge_chi2 c h a" for a
    by (rule sweep_frame_chi2) (rule sweep1_step_frame)
  show ?case
    by (auto simp add: x Cons.IH sweep1_step_edge chi)
qed

lemma sweep1_fold_chi2:
  "e_chi2 (edges (fold (sweep1_step c mm th) xs h) e) =
     (if e \<in> fst ` set xs then edge_chi2 c h e else e_chi2 (edges h e))"
proof (induction xs arbitrary: h)
  case Nil
  show ?case by simp
next
  case (Cons x xs)
  obtain e' kf mpt where x: "x = (e', kf, mpt)" by (cases x)
  have chi: "edge_chi2 c (sweep1_step c mm th (e', kf, mpt) h) a = edge_chi2 c h a" for a
    by (rule sweep_frame_chi2) (rule sweep1_step_frame)
  show ?case
    by (auto simp add: x Cons.IH sweep1_step_edge chi)
qed

lemma sweep1_fold_removes:
  "(e, kf, mpt) \<in> set xs \<Longrightarrow> edge_chi2 c h e > th \<Longrightarrow>
   m_id (mappoints h mpt) \<notin> observed (fold (sweep1_step c mm th) xs h) kf"
proof (induction xs arbitrary: h)
  case Nil
  then show ?case by simp
next
  case (Cons x xs)
  let ?h1 = "sweep1_step c mm th x h"
  have fr: "sweep_frame h ?h1" by (rule sweep1_step_frame)
  show ?case
  proof (cases "x = (e, kf, mpt)")
    case True
    have "m_id (mappoints h mpt) \<notin> observed ?h1 kf"
      unfolding True using Cons.prems(2) by (rule sweep1_step_removes)
    then have "m_id (mappoints h mpt) \<notin> observed (fold (sweep1_step c mm th) xs ?h1) kf"
      by (rule sweep_frame_observed [OF sweep1_fold_frame])
    then show ?thesis by simp
  next
    case False
    with Cons.prems have mem: "(e, kf, mpt) \<in> set xs" by simp
    have "edge_chi2 c ?h1 e > th"
      using Cons.prems(2) by (simp add: sweep_frame_chi2 [OF fr])
    from Cons.IH [OF mem this] show ?thesis
      by (simp add: sweep_frame_m_id [OF fr])
  qed
qed

lemma sweep1_fold_observed:
  "observed (fold (sweep1_step c mm th) xs h) kf =
     observed h kf - set (removed_ids (\<lambda>e. edge_chi2 c h e > th) h kf xs)"
proof (induction xs arbitrary: h)
  case Nil
  show ?case by (simp add: removed_ids_def)
next
  case (Cons x xs)
  obtain e kf' mpt where x: "x = (e, kf', mpt)" by (cases x)
  let ?h1 = "sweep1_step c mm th (e, kf', mpt) h"
  have fr: "sweep_frame h ?h1" by (rule sweep1_step_frame)
  have same: "removed_ids (\<lambda>e. edge_chi2 c ?h1 e > th) ?h1 kf xs =
              removed_ids (\<lambda>e. edge_chi2 c h e > th) h kf xs"
    by (simp add: removed_ids_def sweep_frame_chi2 [OF fr] sweep_frame_m_id [OF fr])
  have "observed (fold (sweep1_step c mm th) (x # xs) h) kf =
        observed ?h1 kf - set (removed_ids (\<lambda>e. edge_chi2 c h e > th) h kf xs)"
    by (simp add: x Cons.IH same)
  also have "\<dots> = observed h kf - set (removed_ids (\<lambda>e. edge_chi2 c h e > th) h kf (x # xs))"
    by (auto simp add: x sweep1_step_observed removed_ids_def)
  finally show ?case .
qed

lemma sweep2_fold_level:
  "e_level (edges (fold (sweep2_step c mm th) xs h) e) = e_level (edges h e)"
proof (induction xs arbitrary: h)
  case Nil
  show ?case by simp
next
  case (Cons x xs)
  obtain e' kf mpt where x: "x = (e', kf, mpt)" by (cases x)
  show ?case
    by (simp add: x Cons.IH sweep2_step_edge)
qed

lemma sweep2_fold_chi2:
  "e_chi2 (edges (fold (sweep2_step c mm th) xs h) e) =
     (if e \<in> fst ` set xs then edge_chi2 c h e else e_chi2 (edges h e))"
proof (induction xs arbitrary: h)
  case Nil
  show ?case by simp
next
  case (Cons x xs)
  obtain e' kf mpt where x: "x = (e', kf, mpt)" by (cases x)
  have chi: "edge_chi2 c (sweep2_step c mm th (e', kf, mpt) h) a = edge_chi2 c h a" for a
    by (rule sweep_frame_chi2) (rule sweep2_step_frame)
  show ?case
    by (auto simp add: x Cons.IH sweep2_step_edge chi)
qed

lemma sweep2_fold_removes:
  "(e, kf, mpt) \<in> set xs \<Longrightarrow> e_level (edges h e) = 0 \<Longrightarrow> edge_chi2 c h e > th \<Longrightarrow>
   m_id (mappoints h mpt) \<notin> observed (fold (sweep2_step c mm th) xs h) kf"
proof (induction xs arbitrary: h)
  case Nil
  then show ?case by simp
next
  case (Cons x xs)
  let ?h1 = "sweep2_step c mm th x h"
  obtain e' kf' mpt' where x: "x = (e', kf', mpt')" by (cases x)
  have fr: "sweep_frame h ?h1" by (rule sweep2_step_frame)
  show ?case
  proof (cases "x = (e, kf, mpt)")
    case True
    have "m_id (mappoints h mpt) \<notin> observed ?h1 kf"
      unfolding True using Cons.prems(2,3) by (rule sweep2_step_removes)
    then have "m_id (mappoints h mpt) \<notin> observed (fold (sweep2_step c mm th) xs ?h1) kf"
      by (rule sweep_frame_observed [OF sweep2_fold_frame])
    then show ?thesis by simp
  next
    case False
    with Cons.prems have mem: "(e, kf, mpt) \<in> set xs" by simp
    have chi: "edge_chi2 c ?h1 e > th"
      using Cons.prems(3) by (simp add: sweep_frame_chi2 [OF fr])
    have lev: "e_level (edges ?h1 e) = 0"
      using Cons.prems(2) by (simp add: x sweep2_step_edge)
    from Cons.IH [OF mem lev chi] show ?thesis
      by (simp add: sweep_frame_m_id [OF fr])
  qed
qed

lemma sweep2_fold_observed:
  "observed (fold (sweep2_step c mm th) xs h) kf =
     observed h kf
       - set (removed_ids (\<lambda>e. e_level (edges h e) = 0 \<and> edge_chi2 c h e > th) h kf xs)"
proof (induction xs arbitrary: h)
  case Nil
  show ?case by (simp add: removed_ids_def)
next
  case (Cons x xs)
  obtain e kf' mpt where x: "x = (e, kf', mpt)" by (cases x)
  let ?h1 = "sweep2_step c mm th (e, kf', mpt) h"
  have fr: "sweep_frame h ?h1" by (rule sweep2_step_frame)
  have same: "removed_ids (\<lambda>e. e_level (edges ?h1 e) = 0 \<and> edge_chi2 c ?h1 e > th) ?h1 kf xs =
              removed_ids (\<lambda>e. e_level (edges h e) = 0 \<and> edge_chi2 c h e > th) h kf xs"
    by (simp add: removed_ids_def sweep_frame_chi2 [OF fr] sweep_frame_m_id [OF fr]
        sweep2_step_edge)
  have "observed (fold (sweep2_step c mm th) (x # xs) h) kf =
        observed ?h1 kf
          - set (removed_ids (\<lambda>e. e_level (edges h e) = 0 \<and> edge_chi2 c h e > th) h kf xs)"
    by (simp add: x Cons.IH same)
  also have "\<dots> = observed h kf
          - set (removed_ids (\<lambda>e. e_level (edges h e) = 0 \<and> edge_chi2 c h e > th) h kf (x # xs))"
    by (auto simp add: x sweep2_step_observed removed_ids_def)
  finally show ?case .
qed

lemma sweep2_fold_optimized:
  "m_optimized (mappoints (fold (sweep2_step c mm th) xs h) p) =
     (p \<in> (snd \<circ> snd) ` set xs \<or> m_optimized (mappoints h p))"
proof (induction xs arbitrary: h)
  case Nil
  show ?case by simp
next
  case (Cons x xs)
  obtain e' kf mpt where x: "x = (e', kf, mpt)" by (cases x)
  show ?case
    by (auto simp add: x Cons.IH sweep2_step_optimized)
qed

lemma sweep1_keeps:
  "poseVertices (sweep1 c mm b h) = poseVertices h"
  "mptVertices (sweep1 c mm b h) = mptVertices h"
  "e_vertex0 (edges (sweep1 c mm b h) e) = e_vertex0 (edges h e)"
  "e_vertex1 (edges (sweep1 c mm b h) e) = e_vertex1 (edges h e)"
  "e_measurement (edges (sweep1 c mm b h) e) = e_measurement (edges h e)"
  "m_id (mappoints (sweep1 c mm b h) p) = m_id (mappoints h p)"
  using sweep1_fold_frame [of h c mm "chi2Threshold b" "edgeToKfThenMpt b"]
  by (simp_all add: sweep1_def sweep_frame_def)

lemma sweep2_keeps:
  "poseVertices (sweep2 c mm b h) = poseVertices h"
  "mptVertices (sweep2 c mm b h) = mptVertices h"
  "e_vertex0 (edges (sweep2 c mm b h) e) = e_vertex0 (edges h e)"
  "e_vertex1 (edges (sweep2 c mm b h) e) = e_vertex1 (edges h e)"
  "e_measurement (edges (sweep2 c mm b h) e) = e_measurement (edges h e)"
  "m_id (mappoints (sweep2 c mm b h) p) = m_id (mappoints h p)"
  using sweep2_fold_frame [of h c mm "chi2Threshold b" "edgeToKfThenMpt b"]
  by (simp_all add: sweep2_def sweep_frame_def)

lemma sweep1_edge:
  "e_robustKernel (edges (sweep1 c mm b h) e) =
     (if e \<in> fst ` set (edgeToKfThenMpt b) then None else e_robustKernel (edges h e))"
  "e_level (edges (sweep1 c mm b h) e) =
     (if e \<in> fst ` set (edgeToKfThenMpt b) \<and> edge_chi2 c h e > chi2Threshold b then 1
      else e_level (edges h e))"
  "e_chi2 (edges (sweep1 c mm b h) e) =
     (if e \<in> fst ` set (edgeToKfThenMpt b) then edge_chi2 c h e else e_chi2 (edges h e))"
  "observed (sweep1 c mm b h) kf =
     observed h kf
       - set (removed_ids (\<lambda>e. edge_chi2 c h e > chi2Threshold b) h kf (edgeToKfThenMpt b))"
  by (simp_all add: sweep1_def sweep1_fold_kernel sweep1_fold_level sweep1_fold_chi2
      sweep1_fold_observed)

lemma sweep2_edge:
  "e_level (edges (sweep2 c mm b h) e) = e_level (edges h e)"
  "e_chi2 (edges (sweep2 c mm b h) e) =
     (if e \<in> fst ` set (edgeToKfThenMpt b) then edge_chi2 c h e else e_chi2 (edges h e))"
  "observed (sweep2 c mm b h) kf =
     observed h kf
       - set (removed_ids (\<lambda>e. e_level (edges h e) = 0 \<and> edge_chi2 c h e > chi2Threshold b)
                h kf (edgeToKfThenMpt b))"
  "m_optimized (mappoints (sweep2 c mm b h) p) =
     (p \<in> (snd \<circ> snd) ` set (edgeToKfThenMpt b) \<or> m_optimized (mappoints h p))"
  by (simp_all add: sweep2_def sweep2_fold_level sweep2_fold_chi2 sweep2_fold_observed
      sweep2_fold_optimized)

text \<open>The concrete round: what the two building loops produce.\<close>

lemmas build_eval = build_vertices_def keyframe_vertex_step_def
  mappoint_vertex_step_def build_edges_def mappoint_edges_step_def edge_step_def
  GetKeypoint_def GetKeyframe_def GetMappoint_def GetObservingMappointIds_def set_insert_def
  ba_mm_def ba_store_def ba_backend_def ba_active_def
  blank_store_def blank_frame_def blank_mappoint_def Backend_init_def

lemma build_ba:
  "build_vertices ba_active ba_mm ba_backend ba_store = Inr st \<Longrightarrow> 
   build_edges ba_mm st = Inr (built_backend, built_store, 4, 4)"
  by (auto simp add: build_eval built_backend_def built_store_def built_edge_def eval_nat_numeral)

lemma OptimizeLocalMap_ba:
  "OptimizeLocalMap ba_solver ba_residual ba_active ba_mm ba_backend ba_store =
     Inr (built_backend, two_pass ba_solver ba_residual ba_mm built_backend built_store)"
proof -
  obtain st where st: "build_vertices ba_active ba_mm ba_backend ba_store = Inr st"
    by (simp add: build_vertices_def ba_backend_def Backend_init_def)
  from build_ba [OF st] st show ?thesis
    by (simp add: OptimizeLocalMap_def)
qed

lemma ba_solver_simps:
  "fst (ba_solver l n opt h) v = vp_estimate (poseVertices h v)"
  "snd (ba_solver l n opt h) v = vm_estimate (mptVertices h v)"
  by (simp_all add: ba_solver_def)

lemmas ba_round_eval = two_pass_def sweep1_keeps sweep2_keeps sweep1_edge sweep2_edge
  observed_optimize optimize_simps ba_solver_simps edge_chi2_def removed_ids_def
  ba_residual_def
  built_backend_def built_store_def built_edge_def ba_store_def
  blank_store_def blank_frame_def blank_mappoint_def Backend_init_def

text \<open>
  C5 (as amended).  In the first sweep (\<open>h\<close> is the store after the first ten iterations),
  for every edge of the round: the residual is recomputed; if it exceeds the threshold, the
  edge's level becomes 1 and the keyframe no longer observes the mappoint, otherwise the
  level stays as it was; and in both cases the robust kernel of the edge is cleared.
\<close>

theorem first_sweep:
  "\<forall>(edge, kf, mpt) \<in> set (edgeToKfThenMpt b).
     e_robustKernel (edges (sweep1 chi2_of mm b h) edge) = None
     \<and> e_chi2 (edges (sweep1 chi2_of mm b h) edge) = edge_chi2 chi2_of h edge
     \<and> (if edge_chi2 chi2_of h edge > chi2Threshold b
         then e_level (edges (sweep1 chi2_of mm b h) edge) = 1
              \<and> m_id (mappoints h mpt) \<notin> observed (sweep1 chi2_of mm b h) kf
         else e_level (edges (sweep1 chi2_of mm b h) edge) = e_level (edges h edge))"
proof -
  have "e_robustKernel (edges (sweep1 chi2_of mm b h) e) = None
     \<and> e_chi2 (edges (sweep1 chi2_of mm b h) e) = edge_chi2 chi2_of h e
     \<and> (if edge_chi2 chi2_of h e > chi2Threshold b
         then e_level (edges (sweep1 chi2_of mm b h) e) = 1
              \<and> m_id (mappoints h mpt) \<notin> observed (sweep1 chi2_of mm b h) kf
         else e_level (edges (sweep1 chi2_of mm b h) e) = e_level (edges h e))"
    if mem: "(e, kf, mpt) \<in> set (edgeToKfThenMpt b)" for e kf mpt
  proof -
    from mem have ein: "e \<in> fst ` set (edgeToKfThenMpt b)" by force
    show ?thesis
      using sweep1_fold_removes [OF mem, where c = chi2_of and h = h and th = "chi2Threshold b" and mm = mm] ein
      by (simp add: sweep1_def sweep1_fold_kernel sweep1_fold_chi2 sweep1_fold_level)
  qed
  then show ?thesis by blast
qed

theorem first_sweep_witness:
  "edgeToKfThenMpt built_backend = [(1, 10, 30), (2, 11, 30), (3, 10, 31), (4, 11, 31)]
   \<and> edge_chi2 ba_residual (optimize ba_solver 0 10 (optimizer built_backend) built_store) 4
        = 1600
   \<and> chi2Threshold built_backend = 5.991
   \<and> e_level (edges (sweep1 ba_residual ba_mm built_backend
        (optimize ba_solver 0 10 (optimizer built_backend) built_store)) 4) = 1
   \<and> 6 \<notin> observed (sweep1 ba_residual ba_mm built_backend
        (optimize ba_solver 0 10 (optimizer built_backend) built_store)) 11
   \<and> edge_chi2 ba_residual (optimize ba_solver 0 10 (optimizer built_backend) built_store) 2
        = 2
   \<and> e_level (edges (sweep1 ba_residual ba_mm built_backend
        (optimize ba_solver 0 10 (optimizer built_backend) built_store)) 2) = 0
   \<and> e_robustKernel (edges (sweep1 ba_residual ba_mm built_backend
        (optimize ba_solver 0 10 (optimizer built_backend) built_store)) 2) = None"
  using first_sweep [of built_backend ba_residual ba_mm
      "optimize ba_solver 0 10 (optimizer built_backend) built_store"]
  by (simp add: ba_round_eval power2_eq_square;
        simp add: observed_def GetObservingMappointIds_def)

text \<open>
  C5 as stated fails on an excluded edge: edge 4 of the concrete round has residual 1600,
  is moved to level 1, and has its robust kernel cleared all the same (line 315 is outside
  the \<^verbatim>\<open>if\<close>).
\<close>

theorem excluded_edge_kernel_counterexample:
  "e_robustKernel (edges (optimize ba_solver 0 10 (optimizer built_backend) built_store) 4)
     = Some deltaRGBD
   \<and> e_level (edges (sweep1 ba_residual ba_mm built_backend
        (optimize ba_solver 0 10 (optimizer built_backend) built_store)) 4) = 1
   \<and> e_robustKernel (edges (sweep1 ba_residual ba_mm built_backend
        (optimize ba_solver 0 10 (optimizer built_backend) built_store)) 4) = None"
  by (simp add: ba_round_eval power2_eq_square;
        simp add: observed_def GetObservingMappointIds_def)

lemma two_pass_edges:
  assumes mem: "(e, kf, mpt) \<in> set (edgeToKfThenMpt b)"
  shows "(e_level (edges (two_pass solve chi2_of mm b h) e) = 0
           \<and> m_id (mappoints (two_pass solve chi2_of mm b h) mpt)
               \<in> observed (two_pass solve chi2_of mm b h) kf
           \<longrightarrow> e_chi2 (edges (two_pass solve chi2_of mm b h) e) \<le> chi2Threshold b)
       \<and> e_chi2 (edges (two_pass solve chi2_of mm b h) e)
           = edge_chi2 chi2_of (two_pass solve chi2_of mm b h) e
       \<and> m_optimized (mappoints (two_pass solve chi2_of mm b h) mpt)"
proof -
  define h3 where
    "h3 = optimize solve 0 10 (optimizer b)
            (sweep1 chi2_of mm b (optimize solve 0 10 (optimizer b) h))"
  define h' where "h' = fold (sweep2_step chi2_of mm (chi2Threshold b)) (edgeToKfThenMpt b) h3"
  have tp: "two_pass solve chi2_of mm b h = h'"
    by (simp add: two_pass_def Let_def sweep2_def h3_def h'_def)
  from mem have ein: "e \<in> fst ` set (edgeToKfThenMpt b)" by force
  from mem have min: "mpt \<in> (snd \<circ> snd) ` set (edgeToKfThenMpt b)" by force
  have fr: "sweep_frame h3 h'" unfolding h'_def by (rule sweep2_fold_frame)
  have lev: "e_level (edges h' e) = e_level (edges h3 e)"
    unfolding h'_def by (rule sweep2_fold_level)
  have chi: "e_chi2 (edges h' e) = edge_chi2 chi2_of h3 e"
    unfolding h'_def using ein by (simp add: sweep2_fold_chi2)
  have chi': "edge_chi2 chi2_of h' e = edge_chi2 chi2_of h3 e"
    by (rule sweep_frame_chi2 [OF fr])
  have mid: "m_id (mappoints h' mpt) = m_id (mappoints h3 mpt)"
    by (rule sweep_frame_m_id [OF fr])
  have opt: "m_optimized (mappoints h' mpt)"
    unfolding h'_def using min by (simp add: sweep2_fold_optimized)
  have rem: "m_id (mappoints h3 mpt) \<notin> observed h' kf"
    if "e_level (edges h3 e) = 0" "edge_chi2 chi2_of h3 e > chi2Threshold b"
    unfolding h'_def using mem that by (rule sweep2_fold_removes)
  have "e_chi2 (edges h' e) \<le> chi2Threshold b"
    if "e_level (edges h' e) = 0" "m_id (mappoints h' mpt) \<in> observed h' kf"
  proof (rule ccontr)
    assume "\<not> e_chi2 (edges h' e) \<le> chi2Threshold b"
    then have "edge_chi2 chi2_of h3 e > chi2Threshold b" by (simp add: chi)
    from rem [OF _ this] that show False by (simp add: lev mid)
  qed
  then show ?thesis
    by (simp add: tp chi chi' opt)
qed

text \<open>Every mappoint vertex with at least one observer gets an edge when the edges are built.\<close>

lemma build_step_ok_refl: "build_step_ok s s"
  by (simp add: build_step_ok_def split_beta)

lemma build_step_ok_trans:
  "build_step_ok s s1 \<Longrightarrow> build_step_ok s1 s2 \<Longrightarrow> build_step_ok s s2"
  unfolding build_step_ok_def split_beta
  by (metis (no_types, lifting) le_trans)

lemma update_entry: "(k, v) \<in> set (AList.update k v al)"
  by (induction al) auto

lemma update_entry_ex: "\<exists>kf'. (k, kf', mpt) \<in> set (AList.update k (kf, mpt) al)"
  using update_entry [of k "(kf, mpt)" al] by blast

lemma update_keeps_others: "x \<in> set al \<Longrightarrow> fst x \<noteq> k \<Longrightarrow> x \<in> set (AList.update k v al)"
  by (induction al) auto

lemma edge_step_ok:
  assumes "edge_step mm mpt mptVertex obs s = Inr s'"
  shows "build_step_ok s s'
       \<and> (\<exists>kf. (snd (snd (snd s')), kf, mpt) \<in> set (edgeToKfThenMpt (fst s')))"
proof -
  obtain kfId kptIdx where obs: "obs = (kfId, kptIdx)" by (cases obs)
  obtain b h vi ei where s: "s = (b, h, vi, ei)" by (cases s)
  from assms obtain kf where kf: "GetKeyframe mm kfId = Some kf"
    by (cases "GetKeyframe mm kfId") (auto simp add: edge_step_def obs s)
  from assms kf obtain kpt where kpt: "GetKeypoint (frames h kf) kptIdx = Inr kpt"
    by (cases "GetKeypoint (frames h kf) kptIdx") (auto simp add: edge_step_def obs s)
  show ?thesis
  proof (cases "map_of (kfIdToCovKfThenVertex b) kfId")
    case None
    with assms kf kpt show ?thesis
      by (auto simp add: edge_step_def obs s Let_def build_step_ok_def update_entry_ex
          update_keeps_others)
  next
    case (Some cv)
    obtain covKf v where cv: "cv = (covKf, v)" by (cases cv)
    with Some assms kf kpt show ?thesis
      by (auto simp add: edge_step_def obs s Let_def build_step_ok_def update_entry_ex
          update_keeps_others)
  qed
qed

lemma fold_err_ok:
  assumes step: "\<And>x s s'. f x s = Inr s' \<Longrightarrow> build_step_ok s s'"
  shows "fold_err f xs s = Inr s' \<Longrightarrow> build_step_ok s s'"
proof (induction xs arbitrary: s)
  case Nil
  then show ?case by (simp add: build_step_ok_refl)
next
  case (Cons x xs)
  from Cons.prems obtain s1 where s1: "f x s = Inr s1" and rest: "fold_err f xs s1 = Inr s'"
    by (cases "f x s") auto
  from step [OF s1] Cons.IH [OF rest] show ?case by (rule build_step_ok_trans)
qed

lemma edge_loop_ok:
  "fold_err (edge_step mm mpt mptVertex) obss s = Inr s' \<Longrightarrow> build_step_ok s s'"
  by (rule fold_err_ok [where f = "edge_step mm mpt mptVertex"]) (auto dest: edge_step_ok)

lemma mappoint_edges_step_ok:
  "mappoint_edges_step mm entry s = Inr s' \<Longrightarrow> build_step_ok s s'"
  by (auto simp add: mappoint_edges_step_def split_beta dest: edge_loop_ok)

lemma mappoint_loop_ok:
  "fold_err (mappoint_edges_step mm) entries s = Inr s' \<Longrightarrow> build_step_ok s s'"
  by (rule fold_err_ok [where f = "mappoint_edges_step mm"]) (auto dest: mappoint_edges_step_ok)

lemma has_edge_kept: "has_edge mpt s \<Longrightarrow> build_step_ok s s' \<Longrightarrow> has_edge mpt s'"
  unfolding has_edge_def build_step_ok_def split_beta
  by (metis (no_types, lifting) fst_conv le_trans)

lemma edge_loop_makes_edge:
  assumes "fold_err (edge_step mm mpt mptVertex) obss s = Inr s'" and "obss \<noteq> []"
  shows "has_edge mpt s'"
proof -
  from assms(2) obtain x xs where obss: "obss = x # xs" by (cases obss) auto
  from assms(1) obtain s1 where s1: "edge_step mm mpt mptVertex x s = Inr s1"
    and rest: "fold_err (edge_step mm mpt mptVertex) xs s1 = Inr s'"
    by (cases "edge_step mm mpt mptVertex x s") (auto simp add: obss)
  from edge_step_ok [OF s1] have "has_edge mpt s1"
    unfolding has_edge_def by blast
  then show ?thesis using edge_loop_ok [OF rest] by (rule has_edge_kept)
qed

lemma mappoint_loop_makes_edges:
  assumes "fold_err (mappoint_edges_step mm) entries s = Inr s'"
    and "(mptId, mpt, mptVertex) \<in> set entries"
    and "m_observedByKeyframes (mappoints (fst (snd s)) mpt) \<noteq> []"
  shows "has_edge mpt s'"
  using assms
proof (induction entries arbitrary: s)
  case Nil
  then show ?case by simp
next
  case (Cons x xs)
  from Cons.prems(1) obtain s1 where s1: "mappoint_edges_step mm x s = Inr s1"
    and rest: "fold_err (mappoint_edges_step mm) xs s1 = Inr s'"
    by (cases "mappoint_edges_step mm x s") auto
  have ok1: "build_step_ok s s1" using s1 by (rule mappoint_edges_step_ok)
  show ?case
  proof (cases "x = (mptId, mpt, mptVertex)")
    case True
    from s1 True have
      "fold_err (edge_step mm mpt mptVertex)
         (m_observedByKeyframes (mappoints (fst (snd s)) mpt)) s = Inr s1"
      by (simp add: mappoint_edges_step_def split_beta)
    then have "has_edge mpt s1" using Cons.prems(3) by (rule edge_loop_makes_edge)
    then show ?thesis using mappoint_loop_ok [OF rest] by (rule has_edge_kept)
  next
    case False
    with Cons.prems(2) have mem: "(mptId, mpt, mptVertex) \<in> set xs" by simp
    from ok1 have "mappoints (fst (snd s1)) = mappoints (fst (snd s))"
      by (simp add: build_step_ok_def split_beta)
    with Cons.prems(3) have "m_observedByKeyframes (mappoints (fst (snd s1)) mpt) \<noteq> []"
      by simp
    from Cons.IH [OF rest mem this] show ?thesis .
  qed
qed

lemma mappoint_vertex_step_keeps:
  "mappoints (fst (snd (mappoint_vertex_step mm mptId st))) = mappoints (fst (snd st))"
  by (simp add: mappoint_vertex_step_def split_beta Let_def split: option.splits)

lemma mappoint_vertex_loop_keeps:
  "mappoints (fst (snd (fold (mappoint_vertex_step mm) ids st))) = mappoints (fst (snd st))"
  by (induction ids arbitrary: st) (simp_all add: mappoint_vertex_step_keeps)

lemma keyframe_vertex_step_keeps:
  "mappoints (fst (snd (keyframe_vertex_step mm kfId st))) = mappoints (fst (snd st))"
  by (simp add: keyframe_vertex_step_def split_beta Let_def mappoint_vertex_loop_keeps
      split: option.splits)

lemma keyframe_vertex_loop_keeps:
  "mappoints (fst (snd (fold (keyframe_vertex_step mm) ids st))) = mappoints (fst (snd st))"
  by (induction ids arbitrary: st) (simp_all add: keyframe_vertex_step_keeps)

lemma build_vertices_keeps:
  "build_vertices active mm b h = Inr st \<Longrightarrow> mappoints (fst (snd st)) = mappoints h"
  by (auto simp add: build_vertices_def Let_def keyframe_vertex_loop_keeps split: option.splits)

lemma build_edges_makes_edges:
  assumes "build_vertices active mm b h = Inr st"
    and "build_edges mm st = Inr (b1, h1, vi, ei)"
    and "(mptId, mpt, mptVertex) \<in> set (mptIdToMptThenVertex b1)"
    and "m_observedByKeyframes (mappoints h mpt) \<noteq> []"
  shows "\<exists>e kf. (e, kf, mpt) \<in> set (edgeToKfThenMpt b1)"
proof -
  obtain b0 h0 vi0 where st: "st = (b0, h0, vi0)" by (cases st)
  from assms(2) have run:
    "fold_err (mappoint_edges_step mm) (mptIdToMptThenVertex b0) (b0, h0, vi0, 0)
       = Inr (b1, h1, vi, ei)"
    by (simp add: build_edges_def st)
  from mappoint_loop_ok [OF run] have same: "mptIdToMptThenVertex b1 = mptIdToMptThenVertex b0"
    by (simp add: build_step_ok_def)
  from build_vertices_keeps [OF assms(1)] have "mappoints h0 = mappoints h" by (simp add: st)
  with assms(4) have "m_observedByKeyframes (mappoints (fst (snd (b0, h0, vi0, 0 :: nat))) mpt) \<noteq> []"
    by simp
  from mappoint_loop_makes_edges [OF run _ this] assms(3) same
  have "has_edge mpt (b1, h1, vi, ei)" by simp
  then show ?thesis by (auto simp add: has_edge_def)
qed

text \<open>
  C6.  When \<open>OptimizeLocalMap\<close> returns, for every edge of the round: if the edge is at
  level 0 and its keyframe still observes its mappoint, then its residual, which is the
  residual at the final estimates, is at most the threshold; and the mappoint of the edge
  is marked optimized.  Hence every mappoint that has a vertex and, when the call starts,
  at least one observer (so that its vertex gets an edge) is marked optimized.
\<close>

theorem two_pass_retained:
  assumes "OptimizeLocalMap solve chi2_of active mm b h = Inr (b', h')"
  shows "(\<forall>(edge, kf, mpt) \<in> set (edgeToKfThenMpt b').
            (e_level (edges h' edge) = 0 \<and> m_id (mappoints h' mpt) \<in> observed h' kf
               \<longrightarrow> e_chi2 (edges h' edge) \<le> chi2Threshold b')
            \<and> e_chi2 (edges h' edge) = edge_chi2 chi2_of h' edge
            \<and> m_optimized (mappoints h' mpt))
       \<and> (\<forall>(mptId, mpt, mptVertex) \<in> set (mptIdToMptThenVertex b').
            m_observedByKeyframes (mappoints h mpt) \<noteq> [] \<longrightarrow> m_optimized (mappoints h' mpt))"
proof -
  from assms obtain st h1 vi ei where bv: "build_vertices active mm b h = Inr st"
    and be: "build_edges mm st = Inr (b', h1, vi, ei)"
    and h': "h' = two_pass solve chi2_of mm b' h1"
    by (auto simp add: OptimizeLocalMap_def split: sum.splits)
  have edges_ok: "\<forall>(edge, kf, mpt) \<in> set (edgeToKfThenMpt b').
            (e_level (edges h' edge) = 0 \<and> m_id (mappoints h' mpt) \<in> observed h' kf
               \<longrightarrow> e_chi2 (edges h' edge) \<le> chi2Threshold b')
            \<and> e_chi2 (edges h' edge) = edge_chi2 chi2_of h' edge
            \<and> m_optimized (mappoints h' mpt)"
    unfolding h' using two_pass_edges [of _ _ _ b' solve chi2_of mm h1] by blast
  have "m_optimized (mappoints h' mpt)"
    if "(mptId, mpt, mptVertex) \<in> set (mptIdToMptThenVertex b')"
      and "m_observedByKeyframes (mappoints h mpt) \<noteq> []" for mptId mpt mptVertex
  proof -
    from build_edges_makes_edges [OF bv be that] obtain e kf
      where "(e, kf, mpt) \<in> set (edgeToKfThenMpt b')" by blast
    with edges_ok show ?thesis by blast
  qed
  with edges_ok show ?thesis by blast
qed

theorem two_pass_retained_witness:
  "OptimizeLocalMap ba_solver ba_residual ba_active ba_mm ba_backend ba_store =
     Inr (built_backend, two_pass ba_solver ba_residual ba_mm built_backend built_store)
   \<and> edgeToKfThenMpt built_backend = [(1, 10, 30), (2, 11, 30), (3, 10, 31), (4, 11, 31)]
   \<and> e_level (edges (two_pass ba_solver ba_residual ba_mm built_backend built_store) 2) = 0
   \<and> m_id (mappoints (two_pass ba_solver ba_residual ba_mm built_backend built_store) 30)
        \<in> observed (two_pass ba_solver ba_residual ba_mm built_backend built_store) 11
   \<and> e_chi2 (edges (two_pass ba_solver ba_residual ba_mm built_backend built_store) 2)
        \<le> chi2Threshold built_backend
   \<and> m_optimized (mappoints (two_pass ba_solver ba_residual ba_mm built_backend built_store) 30)
   \<and> mptIdToMptThenVertex built_backend = [(5, 30, 2), (6, 31, 3)]
   \<and> m_observedByKeyframes (mappoints ba_store 31) = [(0, 1), (1, 1)]
   \<and> m_optimized (mappoints (two_pass ba_solver ba_residual ba_mm built_backend built_store) 31)"
proof -
  have mem: "(2, 11, 30) \<in> set (edgeToKfThenMpt built_backend)"
    "(6, 31, 3) \<in> set (mptIdToMptThenVertex built_backend)"
    by (simp_all add: built_backend_def)
  have obsby: "m_observedByKeyframes (mappoints ba_store 31) = [(0, 1), (1, 1)]"
    by (simp add: ba_store_def blank_store_def blank_mappoint_def)
  have lev: "e_level (edges (two_pass ba_solver ba_residual ba_mm built_backend built_store) 2) = 0"
    by (simp add: ba_round_eval power2_eq_square;
        simp add: observed_def GetObservingMappointIds_def)
  have obs: "m_id (mappoints (two_pass ba_solver ba_residual ba_mm built_backend built_store) 30)
        \<in> observed (two_pass ba_solver ba_residual ba_mm built_backend built_store) 11"
    by (simp add: ba_round_eval power2_eq_square;
        simp add: observed_def GetObservingMappointIds_def)
  from two_pass_retained [OF OptimizeLocalMap_ba] mem lev obs obsby
  show ?thesis
    by (auto simp add: OptimizeLocalMap_ba) (simp_all add: built_backend_def)
qed

text \<open>
  A mappoint can be an outlier and have a vertex when the handoff runs: in the round below
  the first sweep removes the only observation of mappoint 6, which marks it outlier; the
  handoff then leaves its position at \<open>(50, 60, 1)\<close> while the estimate of its vertex is
  \<open>(52, 60, 1)\<close>.
\<close>

lemmas orphan_eval = OptimizeLocalMap_def build_vertices_def keyframe_vertex_step_def
  mappoint_vertex_step_def build_edges_def mappoint_edges_step_def edge_step_def
  GetKeypoint_def GetKeyframe_def GetMappoint_def GetObservingMappointIds_def set_insert_def
  two_pass_def optimize_def sweep1_def sweep2_def sweep1_step_eq sweep2_step_eq
  computeError_def edge_chi2_def setLevel_def setRobustKernel_def set_optimized_def
  RemoveObservedMappoint_def ba_residual_def shift_solver_def
  orphan_mm_def orphan_store_def orphan_backend_def
  blank_store_def blank_frame_def blank_mappoint_def Backend_init_def
  UpdateFrontendTrackingMap_def needs_reset_def reset_tracking_def
  rebuild_trackingMap_def write_poses_def write_positions_def SetTcw_def SetPosition_def
  GetAllMappoints_def

lemma outlier_with_vertex_reachable:
  "(case OptimizeLocalMap shift_solver ba_residual (\<lambda>f. []) orphan_mm orphan_backend orphan_store of
      Inl err \<Rightarrow> False
    | Inr (b', h') \<Rightarrow>
        mptIdToMptThenVertex b' = [(6, 31, 2)]
        \<and> m_outlier (mappoints h' 31)
        \<and> (case UpdateFrontendTrackingMap orphan_mm b' \<lparr>refKeyframe = None, trackingMap = []\<rparr> h' of
             Inl err \<Rightarrow> False
           | Inr (fe', h'') \<Rightarrow>
               vm_estimate (mptVertices h'' 2) = (52, 60, 1)
               \<and> m_position (mappoints h'' 31) = (50, 60, 1)))"
  by (simp add: orphan_eval Let_def power2_eq_square eval_nat_numeral)

section \<open>The poses and positions after the handoff\<close>

text \<open>
  What the building loops, the two rounds of optimization and the sweeps do to the pose
  vertices and to the poses of the keyframes.
\<close>

lemma update_subset: "set (AList.update k v al) \<subseteq> insert (k, v) (set al)"
  by (induction al) auto

lemma map_of_distinct_values:
  "distinct (map snd al) \<Longrightarrow> map_of al k = Some p \<Longrightarrow> map_of al k' = Some p \<Longrightarrow> k = k'"
proof -
  assume d: "distinct (map snd al)" and a: "map_of al k = Some p" and b: "map_of al k' = Some p"
  from a b have "(k, p) \<in> set al" "(k', p) \<in> set al" by (auto dest: map_of_SomeD)
  with d show "k = k'"
    by (metis distinct_map inj_on_def snd_conv fst_conv)
qed

lemma window_from_outside:
  assumes "window_from mm b" and "distinct (map snd (mm_keyframes mm))"
    and "GetKeyframe mm kfId = Some kf" and "map_of (kfIdToCovKfThenVertex b) kfId = None"
  shows "outside_window b kf"
proof -
  have False if "(k, kf, v) \<in> set (kfIdToCovKfThenVertex b)" for k v
  proof -
    from assms(1) that have "GetKeyframe mm k = Some kf"
      by (auto simp add: window_from_def)
    with assms(2,3) have "k = kfId"
      by (auto simp add: GetKeyframe_def dest: map_of_distinct_values)
    with that assms(4) show False
      by (metis map_of_eq_None_iff fst_conv image_eqI)
  qed
  then show ?thesis
    by (auto simp add: outside_window_def)
qed

lemma window_from_entry:
  assumes "window_from mm b" and "map_of (kfIdToCovKfThenVertex b) kfId = Some (covKf, v)"
    and "GetKeyframe mm kfId = Some kf"
  shows "(kfId, kf, v) \<in> set (kfIdToCovKfThenVertex b)"
proof -
  from assms(2) have mem: "(kfId, covKf, v) \<in> set (kfIdToCovKfThenVertex b)"
    by (rule map_of_SomeD)
  with assms(1) have "GetKeyframe mm kfId = Some covKf"
    by (auto simp add: window_from_def)
  with assms(3) mem show ?thesis by simp
qed

lemma pose_held_cong:
  "poseVertices h' v = poseVertices h v \<Longrightarrow> frames h' = frames h \<Longrightarrow>
   pose_held h' kf v = pose_held h kf v"
  by (simp add: pose_held_def)

lemma outside_window_cong:
  "kfIdToCovKfThenVertex b' = kfIdToCovKfThenVertex b \<Longrightarrow>
   outside_window b' kf = outside_window b kf"
  by (simp add: outside_window_def)

lemma pose_inv_fixed:
  "pose_inv (b, h, vi, ei) \<Longrightarrow> (kfId, kf, v) \<in> set (kfIdToFixedKfThenVertex b) \<Longrightarrow>
   v \<le> vi \<and> pose_held h kf v \<and> outside_window b kf"
  unfolding pose_inv_def by blast

lemma pose_inv_edge:
  "pose_inv (b, h, vi, ei) \<Longrightarrow> (e, kf, mpt) \<in> set (edgeToKfThenMpt b) \<Longrightarrow>
   e \<le> ei
   \<and> ((\<exists>kfId. (kfId, kf, e_vertex0 (edges h e)) \<in> set (kfIdToCovKfThenVertex b))
      \<or> (e_vertex0 (edges h e) \<le> vi
         \<and> pose_held h kf (e_vertex0 (edges h e)) \<and> outside_window b kf))"
  unfolding pose_inv_def by blast

lemma covered_vertex:
  "covered (b, h, vi, ei) \<Longrightarrow> v \<in> set (o_poseVertices (optimizer b)) \<Longrightarrow>
   (\<exists>kfId kf. (kfId, kf, v) \<in> set (kfIdToCovKfThenVertex b))
   \<or> (\<exists>e kf mpt. (e, kf, mpt) \<in> set (edgeToKfThenMpt b)
         \<and> e \<le> ei \<and> e_vertex0 (edges h e) = v)"
  unfolding covered_def by blast

lemma pose_inv_covisible_edge:
  assumes inv: "pose_inv (b, h, vi, ei)"
    and cov: "(kfId, kf, v) \<in> set (kfIdToCovKfThenVertex b)"
    and b': "kfIdToCovKfThenVertex b' = kfIdToCovKfThenVertex b"
      "kfIdToFixedKfThenVertex b' = kfIdToFixedKfThenVertex b"
      "edgeToKfThenMpt b' = AList.update (Suc ei) (kf, mpt) (edgeToKfThenMpt b)"
    and h': "poseVertices h' = poseVertices h" "frames h' = frames h"
      "edges h' = (edges h)(Suc ei := edge)" "e_vertex0 edge = v"
  shows "pose_inv (b', h', vi, Suc ei)"
proof -
  have ow: "outside_window b' p = outside_window b p" for p
    using b'(1) by (rule outside_window_cong)
  have ph: "pose_held h' p w = pose_held h p w" for p w
    by (rule pose_held_cong) (simp_all add: h')
  have old: "e_vertex0 (edges h' e) = e_vertex0 (edges h e)" if "e \<le> ei" for e
    using that by (simp add: h')
  have 1: "w \<le> vi \<and> pose_held h' p w \<and> outside_window b' p"
    if "(k, p, w) \<in> set (kfIdToFixedKfThenVertex b')" for k p w
    using pose_inv_fixed [OF inv, of k p w] that by (simp add: b' ow ph)
  have 2: "e \<le> Suc ei
             \<and> ((\<exists>kfId. (kfId, p, e_vertex0 (edges h' e)) \<in> set (kfIdToCovKfThenVertex b'))
                \<or> (e_vertex0 (edges h' e) \<le> vi
                   \<and> pose_held h' p (e_vertex0 (edges h' e)) \<and> outside_window b' p))"
    if "(e, p, m) \<in> set (edgeToKfThenMpt b')" for e p m
  proof -
    from that update_subset [of "Suc ei" "(kf, mpt)" "edgeToKfThenMpt b"]
    consider "(e, p, m) = (Suc ei, kf, mpt)" | "(e, p, m) \<in> set (edgeToKfThenMpt b)"
      by (auto simp add: b')
    then show ?thesis
    proof cases
      case 1
      with cov show ?thesis by (auto simp add: h' b')
    next
      case 2
      from pose_inv_edge [OF inv 2] have "e \<le> ei"
        and "(\<exists>kfId. (kfId, p, e_vertex0 (edges h e)) \<in> set (kfIdToCovKfThenVertex b))
                \<or> (e_vertex0 (edges h e) \<le> vi
                   \<and> pose_held h p (e_vertex0 (edges h e)) \<and> outside_window b p)"
        by blast+
      then show ?thesis by (simp add: old b' ow ph)
    qed
  qed
  from 1 2 show ?thesis
    unfolding pose_inv_def by simp blast
qed

lemma pose_inv_fixed_edge:
  assumes inv: "pose_inv (b, h, vi, ei)"
    and out: "outside_window b kf"
    and b': "kfIdToCovKfThenVertex b' = kfIdToCovKfThenVertex b"
      "kfIdToFixedKfThenVertex b' = AList.update kfId (kf, Suc vi) (kfIdToFixedKfThenVertex b)"
      "edgeToKfThenMpt b' = AList.update (Suc ei) (kf, mpt) (edgeToKfThenMpt b)"
    and h': "poseVertices h' = (poseVertices h)(Suc vi := pv)" "frames h' = frames h"
      "edges h' = (edges h)(Suc ei := edge)" "e_vertex0 edge = Suc vi"
    and pv: "vp_fixed pv" "vp_estimate pv = f_T_c_w (frames h kf)"
  shows "pose_inv (b', h', Suc vi, Suc ei)"
proof -
  have ow: "outside_window b' p = outside_window b p" for p
    using b'(1) by (rule outside_window_cong)
  have ph: "pose_held h' p w = pose_held h p w" if "w \<le> vi" for p w
    using that by (intro pose_held_cong) (simp_all add: h')
  have new: "pose_held h' kf (Suc vi)"
    by (simp add: pose_held_def h' pv)
  have old: "e_vertex0 (edges h' e) = e_vertex0 (edges h e)" if "e \<le> ei" for e
    using that by (simp add: h')
  have top: "e_vertex0 (edges h' (Suc ei)) = Suc vi"
    by (simp add: h')
  have 1: "w \<le> Suc vi \<and> pose_held h' p w \<and> outside_window b' p"
    if "(k, p, w) \<in> set (kfIdToFixedKfThenVertex b')" for k p w
  proof -
    from that update_subset [of kfId "(kf, Suc vi)" "kfIdToFixedKfThenVertex b"]
    consider "(k, p, w) = (kfId, kf, Suc vi)" | "(k, p, w) \<in> set (kfIdToFixedKfThenVertex b)"
      by (auto simp add: b')
    then show ?thesis
    proof cases
      case 1
      with new out show ?thesis by (simp add: ow)
    next
      case 2
      from pose_inv_fixed [OF inv 2] show ?thesis by (simp add: ow ph)
    qed
  qed
  have 2: "e \<le> Suc ei
             \<and> ((\<exists>kfId. (kfId, p, e_vertex0 (edges h' e)) \<in> set (kfIdToCovKfThenVertex b'))
                \<or> (e_vertex0 (edges h' e) \<le> Suc vi
                   \<and> pose_held h' p (e_vertex0 (edges h' e)) \<and> outside_window b' p))"
    if "(e, p, m) \<in> set (edgeToKfThenMpt b')" for e p m
  proof -
    from that update_subset [of "Suc ei" "(kf, mpt)" "edgeToKfThenMpt b"]
    consider "(e, p, m) = (Suc ei, kf, mpt)" | "(e, p, m) \<in> set (edgeToKfThenMpt b)"
      by (auto simp add: b')
    then show ?thesis
    proof cases
      case 1
      with new out show ?thesis by (simp add: top ow)
    next
      case 2
      from pose_inv_edge [OF inv 2] have e: "e \<le> ei"
        and "(\<exists>kfId. (kfId, p, e_vertex0 (edges h e)) \<in> set (kfIdToCovKfThenVertex b))
                \<or> (e_vertex0 (edges h e) \<le> vi
                   \<and> pose_held h p (e_vertex0 (edges h e)) \<and> outside_window b p)"
        by blast+
      then show ?thesis
        using ph [of "e_vertex0 (edges h e)" p] by (auto simp add: old b' ow)
    qed
  qed
  from 1 2 show ?thesis
    unfolding pose_inv_def by simp blast
qed

lemma covered_edge:
  assumes inv: "covered (b, h, vi, ei)"
    and b': "kfIdToCovKfThenVertex b' = kfIdToCovKfThenVertex b"
      "edgeToKfThenMpt b' = AList.update (Suc ei) (kf, mpt) (edgeToKfThenMpt b)"
      "set (o_poseVertices (optimizer b'))
         \<subseteq> insert (e_vertex0 edge) (set (o_poseVertices (optimizer b)))"
    and h': "edges h' = (edges h)(Suc ei := edge)"
  shows "covered (b', h', vi', Suc ei)"
proof -
  have old: "e_vertex0 (edges h' e) = e_vertex0 (edges h e)" if "e \<le> ei" for e
    using that by (simp add: h')
  have top: "e_vertex0 (edges h' (Suc ei)) = e_vertex0 edge"
    by (simp add: h')
  have "(\<exists>kfId kf. (kfId, kf, w) \<in> set (kfIdToCovKfThenVertex b'))
             \<or> (\<exists>e kf mpt. (e, kf, mpt) \<in> set (edgeToKfThenMpt b')
                   \<and> e \<le> Suc ei \<and> e_vertex0 (edges h' e) = w)"
    if "w \<in> set (o_poseVertices (optimizer b'))" for w
  proof -
    from that b'(3) consider "w = e_vertex0 edge" | "w \<in> set (o_poseVertices (optimizer b))"
      by auto
    then show ?thesis
    proof cases
      case 1
      have "(Suc ei, kf, mpt) \<in> set (edgeToKfThenMpt b')"
        by (simp add: b' update_entry)
      with 1 top show ?thesis by blast
    next
      case 2
      from covered_vertex [OF inv 2]
      consider k p where "(k, p, w) \<in> set (kfIdToCovKfThenVertex b)"
        | e p m where "(e, p, m) \<in> set (edgeToKfThenMpt b)" "e \<le> ei" "e_vertex0 (edges h e) = w"
        by blast
      then show ?thesis
      proof cases
        case 1
        then show ?thesis by (auto simp add: b')
      next
        case 2
        from 2(1,2) have "(e, p, m) \<in> set (edgeToKfThenMpt b')"
          by (simp add: b' update_keeps_others)
        moreover from 2(2,3) old [of e] have "e \<le> Suc ei" "e_vertex0 (edges h' e) = w"
          by simp_all
        ultimately show ?thesis by blast
      qed
    qed
  qed
  then show ?thesis
    unfolding covered_def by simp
qed

lemma edge_step_pose_inv:
  assumes step: "edge_step mm mpt mptVertex obs s = Inr s'"
    and inv: "pose_inv s" and win: "window_from mm (fst s)"
    and inj: "distinct (map snd (mm_keyframes mm))"
  shows "pose_inv s' \<and> kfIdToCovKfThenVertex (fst s') = kfIdToCovKfThenVertex (fst s)"
proof -
  obtain kfId kptIdx where obs: "obs = (kfId, kptIdx)" by (cases obs)
  obtain b h vi ei where s: "s = (b, h, vi, ei)" by (cases s)
  from step obtain kf where kf: "GetKeyframe mm kfId = Some kf"
    by (cases "GetKeyframe mm kfId") (auto simp add: edge_step_def obs s)
  from step kf obtain kpt where kpt: "GetKeypoint (frames h kf) kptIdx = Inr kpt"
    by (cases "GetKeypoint (frames h kf) kptIdx") (auto simp add: edge_step_def obs s)
  obtain b' h' vi' ei' where s': "s' = (b', h', vi', ei')" by (cases s')
  show ?thesis
  proof (cases "map_of (kfIdToCovKfThenVertex b) kfId")
    case None
    from win kf None inj have out: "outside_window b kf"
      by (auto simp add: s intro: window_from_outside)
    from step kf kpt None have "pose_inv (b', h', Suc vi, Suc ei)"
      by (intro pose_inv_fixed_edge [OF inv [unfolded s] out])
         (auto simp add: edge_step_def obs s s' Let_def)
    moreover from step kf kpt None have "vi' = Suc vi" "ei' = Suc ei"
      "kfIdToCovKfThenVertex b' = kfIdToCovKfThenVertex b"
      by (auto simp add: edge_step_def obs s s' Let_def)
    ultimately show ?thesis by (simp add: s s')
  next
    case (Some cv)
    obtain covKf v where cv: "cv = (covKf, v)" by (cases cv)
    from win Some kf have mem: "(kfId, kf, v) \<in> set (kfIdToCovKfThenVertex b)"
      by (auto simp add: s cv intro: window_from_entry)
    from step kf kpt Some cv have "pose_inv (b', h', vi, Suc ei)"
      by (intro pose_inv_covisible_edge [OF inv [unfolded s] mem])
         (auto simp add: edge_step_def obs s s' Let_def)
    moreover from step kf kpt Some cv have "vi' = vi" "ei' = Suc ei"
      "kfIdToCovKfThenVertex b' = kfIdToCovKfThenVertex b"
      by (auto simp add: edge_step_def obs s s' Let_def)
    ultimately show ?thesis by (simp add: s s')
  qed
qed

lemma edge_step_covered:
  assumes step: "edge_step mm mpt mptVertex obs s = Inr s'" and inv: "covered s"
  shows "covered s'"
proof -
  obtain kfId kptIdx where obs: "obs = (kfId, kptIdx)" by (cases obs)
  obtain b h vi ei where s: "s = (b, h, vi, ei)" by (cases s)
  from step obtain kf where kf: "GetKeyframe mm kfId = Some kf"
    by (cases "GetKeyframe mm kfId") (auto simp add: edge_step_def obs s)
  from step kf obtain kpt where kpt: "GetKeypoint (frames h kf) kptIdx = Inr kpt"
    by (cases "GetKeypoint (frames h kf) kptIdx") (auto simp add: edge_step_def obs s)
  obtain b' h' vi' ei' where s': "s' = (b', h', vi', ei')" by (cases s')
  show ?thesis
  proof (cases "map_of (kfIdToCovKfThenVertex b) kfId")
    case None
    from step kf kpt None have "covered (b', h', vi', Suc ei)"
      by (intro covered_edge [OF inv [unfolded s]])
         (auto simp add: edge_step_def obs s s' Let_def)
    moreover from step kf kpt None have "ei' = Suc ei"
      by (auto simp add: edge_step_def obs s s' Let_def)
    ultimately show ?thesis by (simp add: s')
  next
    case (Some cv)
    obtain covKf v where cv: "cv = (covKf, v)" by (cases cv)
    from step kf kpt Some cv have "covered (b', h', vi', Suc ei)"
      by (intro covered_edge [OF inv [unfolded s]])
         (auto simp add: edge_step_def obs s s' Let_def)
    moreover from step kf kpt Some cv have "ei' = Suc ei"
      by (auto simp add: edge_step_def obs s s' Let_def)
    ultimately show ?thesis by (simp add: s')
  qed
qed

lemma fold_err_inv:
  assumes step: "\<And>x s s'. f x s = Inr s' \<Longrightarrow> P s \<Longrightarrow> P s'"
  shows "fold_err f xs s = Inr s' \<Longrightarrow> P s \<Longrightarrow> P s'"
proof (induction xs arbitrary: s)
  case Nil
  then show ?case by simp
next
  case (Cons x xs)
  from Cons.prems(1) obtain s1 where s1: "f x s = Inr s1" and rest: "fold_err f xs s1 = Inr s'"
    by (cases "f x s") auto
  from step [OF s1 Cons.prems(2)] have "P s1" .
  with rest show ?case by (rule Cons.IH)
qed

lemma edge_step_round:
  assumes "distinct (map snd (mm_keyframes mm))"
    and "edge_step mm mpt mptVertex obs s = Inr s'"
    and "pose_inv s \<and> window_from mm (fst s)"
  shows "pose_inv s' \<and> window_from mm (fst s')"
  using edge_step_pose_inv [OF assms(2) _ _ assms(1)] assms(3)
  by (simp add: window_from_def)

lemma mappoint_edges_step_round:
  assumes "distinct (map snd (mm_keyframes mm))"
    and "mappoint_edges_step mm entry s = Inr s'"
    and "pose_inv s \<and> window_from mm (fst s)"
  shows "pose_inv s' \<and> window_from mm (fst s')"
proof -
  obtain mptId mpt mptVertex where entry: "entry = (mptId, mpt, mptVertex)" by (cases entry)
  from assms(2) have
    "fold_err (edge_step mm mpt mptVertex)
       (m_observedByKeyframes (mappoints (fst (snd s)) mpt)) s = Inr s'"
    by (simp add: mappoint_edges_step_def entry split_beta)
  from this assms(3) show ?thesis
    by (rule fold_err_inv [where f = "edge_step mm mpt mptVertex", rotated])
       (rule edge_step_round [OF assms(1)])
qed

lemma mappoint_edges_step_covered:
  assumes "mappoint_edges_step mm entry s = Inr s'" and "covered s"
  shows "covered s'"
proof -
  obtain mptId mpt mptVertex where entry: "entry = (mptId, mpt, mptVertex)" by (cases entry)
  from assms(1) have
    "fold_err (edge_step mm mpt mptVertex)
       (m_observedByKeyframes (mappoints (fst (snd s)) mpt)) s = Inr s'"
    by (simp add: mappoint_edges_step_def entry split_beta)
  from this assms(2) show ?thesis
    by (rule fold_err_inv [where f = "edge_step mm mpt mptVertex", rotated])
       (rule edge_step_covered)
qed

lemma build_edges_round:
  assumes "distinct (map snd (mm_keyframes mm))"
    and "build_edges mm (b, h, vi) = Inr s'"
    and "vertices_inv mm b"
  shows "pose_inv s' \<and> window_from mm (fst s')"
proof -
  from assms(3) have start: "pose_inv (b, h, vi, 0) \<and> window_from mm (fst (b, h, vi, 0 :: nat))"
    by (simp add: vertices_inv_def pose_inv_def)
  from assms(2) have
    "fold_err (mappoint_edges_step mm) (mptIdToMptThenVertex b) (b, h, vi, 0) = Inr s'"
    by (simp add: build_edges_def)
  from this start show ?thesis
    by (rule fold_err_inv [where f = "mappoint_edges_step mm", rotated])
       (rule mappoint_edges_step_round [OF assms(1)])
qed

lemma build_edges_covered:
  assumes "build_edges mm (b, h, vi) = Inr s'" and "window_covers b"
  shows "covered s'"
proof -
  from assms(2) have start: "covered (b, h, vi, 0)"
    by (simp add: window_covers_def covered_def)
  from assms(1) have
    "fold_err (mappoint_edges_step mm) (mptIdToMptThenVertex b) (b, h, vi, 0) = Inr s'"
    by (simp add: build_edges_def)
  from this start show ?thesis
    by (rule fold_err_inv [where f = "mappoint_edges_step mm", rotated])
       (rule mappoint_edges_step_covered)
qed

lemma mappoint_vertex_step_backend:
  "kfIdToCovKfThenVertex (fst (mappoint_vertex_step mm i st)) = kfIdToCovKfThenVertex (fst st)"
  "kfIdToFixedKfThenVertex (fst (mappoint_vertex_step mm i st)) = kfIdToFixedKfThenVertex (fst st)"
  "edgeToKfThenMpt (fst (mappoint_vertex_step mm i st)) = edgeToKfThenMpt (fst st)"
  "o_poseVertices (optimizer (fst (mappoint_vertex_step mm i st))) =
     o_poseVertices (optimizer (fst st))"
  by (simp_all add: mappoint_vertex_step_def split_beta Let_def split: option.splits)

lemma mappoint_vertex_loop_backend:
  "kfIdToCovKfThenVertex (fst (fold (mappoint_vertex_step mm) ids st)) =
     kfIdToCovKfThenVertex (fst st)
   \<and> kfIdToFixedKfThenVertex (fst (fold (mappoint_vertex_step mm) ids st)) =
     kfIdToFixedKfThenVertex (fst st)
   \<and> edgeToKfThenMpt (fst (fold (mappoint_vertex_step mm) ids st)) = edgeToKfThenMpt (fst st)
   \<and> o_poseVertices (optimizer (fst (fold (mappoint_vertex_step mm) ids st))) =
     o_poseVertices (optimizer (fst st))"
  by (induction ids arbitrary: st) (simp_all add: mappoint_vertex_step_backend)

lemma keyframe_vertex_step_backend:
  assumes "GetKeyframe mm kfId = Some kf"
  shows "kfIdToCovKfThenVertex (fst (keyframe_vertex_step mm kfId st)) =
           AList.update kfId (kf, Suc (snd (snd st))) (kfIdToCovKfThenVertex (fst st))
       \<and> kfIdToFixedKfThenVertex (fst (keyframe_vertex_step mm kfId st)) =
           kfIdToFixedKfThenVertex (fst st)
       \<and> edgeToKfThenMpt (fst (keyframe_vertex_step mm kfId st)) = edgeToKfThenMpt (fst st)
       \<and> o_poseVertices (optimizer (fst (keyframe_vertex_step mm kfId st))) =
           o_poseVertices (optimizer (fst st)) @ [Suc (snd (snd st))]"
proof -
  obtain b h vi where st: "st = (b, h, vi)" by (cases st)
  define b' where "b' = b\<lparr>optimizer := (optimizer b)
                           \<lparr>o_poseVertices := o_poseVertices (optimizer b) @ [Suc vi]\<rparr>,
                         kfIdToCovKfThenVertex :=
                           AList.update kfId (kf, Suc vi) (kfIdToCovKfThenVertex b)\<rparr>"
  obtain h' ids where step:
    "keyframe_vertex_step mm kfId st = fold (mappoint_vertex_step mm) ids (b', h', Suc vi)"
    by (simp add: keyframe_vertex_step_def st assms Let_def b'_def)
  from mappoint_vertex_loop_backend [of mm ids "(b', h', Suc vi)"] show ?thesis
    by (simp add: step) (simp add: b'_def st)
qed

lemma keyframe_vertex_step_inv:
  assumes "vertices_inv mm (fst st)"
  shows "vertices_inv mm (fst (keyframe_vertex_step mm kfId st))"
proof (cases "GetKeyframe mm kfId")
  case None
  with assms show ?thesis
    by (simp add: keyframe_vertex_step_def split_beta)
next
  case (Some kf)
  from keyframe_vertex_step_backend [OF Some, of st] assms Some
    update_subset [of kfId "(kf, Suc (snd (snd st)))" "kfIdToCovKfThenVertex (fst st)"]
  show ?thesis
    unfolding vertices_inv_def window_from_def by auto
qed

lemma keyframe_vertex_loop_inv:
  "vertices_inv mm (fst st) \<Longrightarrow> vertices_inv mm (fst (fold (keyframe_vertex_step mm) ids st))"
  by (induction ids arbitrary: st) (simp_all add: keyframe_vertex_step_inv)

lemma keyframe_vertex_step_covers:
  assumes inv: "window_covers (fst st)"
    and fresh: "kfId \<notin> fst ` set (kfIdToCovKfThenVertex (fst st))"
  shows "window_covers (fst (keyframe_vertex_step mm kfId st))
       \<and> fst ` set (kfIdToCovKfThenVertex (fst (keyframe_vertex_step mm kfId st)))
           \<subseteq> insert kfId (fst ` set (kfIdToCovKfThenVertex (fst st)))"
proof (cases "GetKeyframe mm kfId")
  case None
  with inv show ?thesis
    by (auto simp add: keyframe_vertex_step_def split_beta)
next
  case (Some kf)
  from keyframe_vertex_step_backend [OF Some, of st] fresh
  have cov: "kfIdToCovKfThenVertex (fst (keyframe_vertex_step mm kfId st)) =
               kfIdToCovKfThenVertex (fst st) @ [(kfId, kf, Suc (snd (snd st)))]"
    and pv: "o_poseVertices (optimizer (fst (keyframe_vertex_step mm kfId st))) =
               o_poseVertices (optimizer (fst st)) @ [Suc (snd (snd st))]"
    by (simp_all add: update_fresh_key)
  from inv show ?thesis
    unfolding window_covers_def cov pv by simp blast
qed

lemma keyframe_vertex_loop_covers:
  "distinct ids \<Longrightarrow> window_covers (fst st) \<Longrightarrow>
   fst ` set (kfIdToCovKfThenVertex (fst st)) \<inter> set ids = {} \<Longrightarrow>
   window_covers (fst (fold (keyframe_vertex_step mm) ids st))"
proof (induction ids arbitrary: st)
  case Nil
  then show ?case by simp
next
  case (Cons kfId ids)
  from Cons.prems have fresh: "kfId \<notin> fst ` set (kfIdToCovKfThenVertex (fst st))" by auto
  from keyframe_vertex_step_covers [OF Cons.prems(2) fresh]
  have 1: "window_covers (fst (keyframe_vertex_step mm kfId st))"
    and 2: "fst ` set (kfIdToCovKfThenVertex (fst (keyframe_vertex_step mm kfId st)))
           \<subseteq> insert kfId (fst ` set (kfIdToCovKfThenVertex (fst st)))"
    by blast+
  from 2 Cons.prems have
    "fst ` set (kfIdToCovKfThenVertex (fst (keyframe_vertex_step mm kfId st))) \<inter> set ids = {}"
    by auto
  with Cons.IH [OF _ 1] Cons.prems(1) show ?case by simp
qed

lemma distinct_set_insert: "distinct xs \<Longrightarrow> distinct (set_insert x xs)"
  by (simp add: set_insert_def)

lemma build_vertices_round:
  assumes "build_vertices active mm (CleanUp b0) h0 = Inr (b, h, vi)"
  shows "vertices_inv mm b"
    and "\<forall>f. distinct (active f) \<Longrightarrow> window_covers b"
proof -
  from assms(1) obtain cur where cur: "keyframeCurr (CleanUp b0) = Some cur"
    by (cases "keyframeCurr (CleanUp b0)") (auto simp add: build_vertices_def)
  let ?ids = "set_insert (f_id (frames h0 cur)) (active (frames h0 cur))"
  from assms(1) cur have run:
    "fold (keyframe_vertex_step mm) ?ids (CleanUp b0, h0, 0) = (b, h, vi)"
    by (simp add: build_vertices_def Let_def)
  have "vertices_inv mm (fst (fold (keyframe_vertex_step mm) ?ids (CleanUp b0, h0, 0)))"
    by (rule keyframe_vertex_loop_inv)
       (simp add: vertices_inv_def window_from_def CleanUp_def)
  with run show "vertices_inv mm b" by simp
  assume "\<forall>f. distinct (active f)"
  then have "window_covers (fst (fold (keyframe_vertex_step mm) ?ids (CleanUp b0, h0, 0)))"
    by (intro keyframe_vertex_loop_covers)
       (simp_all add: distinct_set_insert window_covers_def CleanUp_def)
  with run show "window_covers b" by simp
qed

lemma optimize_pose_held:
  assumes "leaves_fixed solve" and "pose_held h kf v"
  shows "pose_held (optimize solve l n opt h) kf v"
proof (cases "v \<in> set (o_poseVertices opt)")
  case True
  with assms have "fst (solve l n opt h) v = vp_estimate (poseVertices h v)"
    by (simp add: leaves_fixed_def pose_held_def)
  with assms(2) True show ?thesis
    by (simp add: pose_held_def optimize_simps)
next
  case False
  with assms(2) show ?thesis
    by (simp add: pose_held_def optimize_simps)
qed

lemma sweep1_step_pose:
  "f_T_c_w (frames (sweep1_step c mm th x h) p) = f_T_c_w (frames h p)"
  by (cases x)
     (simp add: sweep1_step_eq setRobustKernel_simps setLevel_simps Remove_frames
        computeError_simps)

lemma sweep2_step_pose:
  "f_T_c_w (frames (sweep2_step c mm th x h) p) = f_T_c_w (frames h p)"
  by (cases x)
     (simp add: sweep2_step_eq set_optimized_simps Remove_frames computeError_simps)

lemma sweep1_pose: "f_T_c_w (frames (sweep1 c mm b h) p) = f_T_c_w (frames h p)"
proof -
  have "f_T_c_w (frames (fold (sweep1_step c mm th) xs h) p) = f_T_c_w (frames h p)" for th xs
    by (induction xs arbitrary: h) (simp_all add: sweep1_step_pose)
  then show ?thesis by (simp add: sweep1_def)
qed

lemma sweep2_pose: "f_T_c_w (frames (sweep2 c mm b h) p) = f_T_c_w (frames h p)"
proof -
  have "f_T_c_w (frames (fold (sweep2_step c mm th) xs h) p) = f_T_c_w (frames h p)" for th xs
    by (induction xs arbitrary: h) (simp_all add: sweep2_step_pose)
  then show ?thesis by (simp add: sweep2_def)
qed

lemma sweep_pose_held:
  "pose_held h kf v \<Longrightarrow> pose_held (sweep1 c mm b h) kf v"
  "pose_held h kf v \<Longrightarrow> pose_held (sweep2 c mm b h) kf v"
  by (simp_all add: pose_held_def sweep1_keeps sweep2_keeps sweep1_pose sweep2_pose)

lemma two_pass_pose_held:
  assumes "leaves_fixed solve" and "pose_held h kf v"
  shows "pose_held (two_pass solve c mm b h) kf v"
  unfolding two_pass_def Let_def
  by (intro sweep_pose_held optimize_pose_held assms)

lemma two_pass_vertex0:
  "e_vertex0 (edges (two_pass solve c mm b h) e) = e_vertex0 (edges h e)"
  by (simp add: two_pass_def sweep1_keeps sweep2_keeps optimize_simps)

lemma pose_inv_store:
  assumes inv: "pose_inv (b, h, vi, ei)"
    and held: "\<And>p w. pose_held h p w \<Longrightarrow> pose_held h' p w"
    and v0: "\<And>e. e_vertex0 (edges h' e) = e_vertex0 (edges h e)"
  shows "pose_inv (b, h', vi, ei)"
proof -
  have 1: "w \<le> vi \<and> pose_held h' p w \<and> outside_window b p"
    if "(k, p, w) \<in> set (kfIdToFixedKfThenVertex b)" for k p w
    using pose_inv_fixed [OF inv that] held by blast
  have 2: "e \<le> ei
             \<and> ((\<exists>kfId. (kfId, p, e_vertex0 (edges h' e)) \<in> set (kfIdToCovKfThenVertex b))
                \<or> (e_vertex0 (edges h' e) \<le> vi
                   \<and> pose_held h' p (e_vertex0 (edges h' e)) \<and> outside_window b p))"
    if "(e, p, m) \<in> set (edgeToKfThenMpt b)" for e p m
    using pose_inv_edge [OF inv that] held unfolding v0 by blast
  from 1 2 show ?thesis
    unfolding pose_inv_def by simp blast
qed

lemma covered_store:
  assumes "covered (b, h, vi, ei)"
    and "\<And>e. e_vertex0 (edges h' e) = e_vertex0 (edges h e)"
  shows "covered (b, h', vi, ei)"
  using assms unfolding covered_def by simp

lemma round_pose_inv:
  assumes round: "OptimizeLocalMap solve chi2_of active mm (CleanUp b0) h0 = Inr (b, h)"
    and fixed: "leaves_fixed solve"
    and inj: "distinct (map snd (mm_keyframes mm))"
  shows "\<exists>vi ei. pose_inv (b, h, vi, ei)"
proof -
  from round obtain b1 h1 vi1 h2 vi ei
    where bv: "build_vertices active mm (CleanUp b0) h0 = Inr (b1, h1, vi1)"
      and be: "build_edges mm (b1, h1, vi1) = Inr (b, h2, vi, ei)"
      and h: "h = two_pass solve chi2_of mm b h2"
    by (auto simp add: OptimizeLocalMap_def split: sum.splits)
  from build_vertices_round(1) [OF bv] have "vertices_inv mm b1" .
  from build_edges_round [OF inj be this] have "pose_inv (b, h2, vi, ei)" by simp
  then have "pose_inv (b, h, vi, ei)"
    unfolding h
    by (rule pose_inv_store) (simp_all add: two_pass_pose_held [OF fixed] two_pass_vertex0)
  then show ?thesis by blast
qed

lemma round_covered:
  assumes round: "OptimizeLocalMap solve chi2_of active mm (CleanUp b0) h0 = Inr (b, h)"
    and ids: "\<forall>f. distinct (active f)"
  shows "\<exists>vi ei. covered (b, h, vi, ei)"
proof -
  from round obtain b1 h1 vi1 h2 vi ei
    where bv: "build_vertices active mm (CleanUp b0) h0 = Inr (b1, h1, vi1)"
      and be: "build_edges mm (b1, h1, vi1) = Inr (b, h2, vi, ei)"
      and h: "h = two_pass solve chi2_of mm b h2"
    by (auto simp add: OptimizeLocalMap_def split: sum.splits)
  from build_vertices_round(2) [OF bv ids] have "window_covers b1" .
  from build_edges_covered [OF be this] have "covered (b, h2, vi, ei)" .
  then have "covered (b, h, vi, ei)"
    unfolding h by (rule covered_store) (simp add: two_pass_vertex0)
  then show ?thesis by blast
qed

text \<open>The round with a keyframe outside the window.\<close>

lemmas window_build_eval = build_vertices_def keyframe_vertex_step_def
  mappoint_vertex_step_def build_edges_def mappoint_edges_step_def edge_step_def
  GetKeypoint_def GetKeyframe_def GetMappoint_def GetObservingMappointIds_def set_insert_def
  window_mm_def window_store_def window_backend_def CleanUp_def
  blank_store_def blank_frame_def blank_mappoint_def Backend_init_def

lemma build_window:
  "build_vertices (\<lambda>f. []) window_mm (CleanUp window_backend) window_store = Inr st \<Longrightarrow>
   build_edges window_mm st = Inr (window_built, window_built_store, 3, 2)"
  by (auto simp add: window_build_eval window_built_def window_built_store_def built_edge_def
      eval_nat_numeral)

lemma OptimizeLocalMap_window:
  "OptimizeLocalMap window_solver ba_residual (\<lambda>f. []) window_mm (CleanUp window_backend)
     window_store = Inr (window_built, window_round)"
proof -
  obtain st where st:
    "build_vertices (\<lambda>f. []) window_mm (CleanUp window_backend) window_store = Inr st"
    by (simp add: build_vertices_def window_backend_def Backend_init_def CleanUp_def)
  from build_window [OF st] st show ?thesis
    by (simp add: OptimizeLocalMap_def window_round_def)
qed

lemma leaves_fixed_window: "leaves_fixed window_solver"
  by (simp add: leaves_fixed_def window_solver_def)

lemma window_solver_simps:
  "fst (window_solver l n opt h) v =
     (if vp_fixed (poseVertices h v) then vp_estimate (poseVertices h v)
      else SE3 (0, 0, 0, 1) (2, 0, 0))"
  "snd (window_solver l n opt h) v = vm_estimate (mptVertices h v)"
  by (simp_all add: window_solver_def)

lemma window_round_estimates:
  "vp_estimate (poseVertices window_round (Suc 0)) = SE3 (0, 0, 0, 1) (2, 0, 0)"
  "vp_estimate (poseVertices window_round 3) = SE3 (0, 0, 0, 1) (5, 0, 0)"
  by (simp_all add: window_round_def two_pass_def sweep1_keeps sweep2_keeps
      optimize_simps window_solver_simps window_built_def window_built_store_def
      window_store_def blank_store_def blank_frame_def)

text \<open>
  C3 (as amended).  After the callback, whichever branch of the reference-keyframe test
  was taken, every keyframe with a pose vertex in \<^verbatim>\<open>kfIdToCovKfThenVertex_\<close> has that
  vertex's estimate as its pose, and every mappoint with a vertex that is not an outlier
  has that vertex's estimate as its position; the position of an outlier mappoint is left
  as it was.  (Distinct entries of the two maps hold distinct objects.)

  The keyframes outside the window have fixed pose vertices, which the callback does not
  write.  When the handoff follows a round of \<^verbatim>\<open>OptimizeLocalMap\<close> that started from
  emptied containers, with a solver that leaves fixed vertices alone and a Map Manager
  that holds distinct keyframes under distinct ids, the pose of every keyframe recorded in
  \<^verbatim>\<open>kfIdToFixedKfThenVertex_\<close> is the estimate of its vertex, and for every edge of the
  round the pose of the edge's keyframe is the estimate of the edge's pose vertex.  These
  are all the pose vertices there are: when the ids of the window are listed once each,
  every pose vertex the optimizer owns is recorded in \<^verbatim>\<open>kfIdToCovKfThenVertex_\<close> or is
  the pose vertex of an edge.
\<close>

theorem handoff_writes_back:
  assumes "UpdateFrontendTrackingMap mm b fe h = Inr (fe', h')"
    and "distinct (map (fst \<circ> snd) (kfIdToCovKfThenVertex b))"
    and "distinct (map (fst \<circ> snd) (mptIdToMptThenVertex b))"
  shows "(\<forall>(kfId, kf, kfVertex) \<in> set (kfIdToCovKfThenVertex b).
            f_T_c_w (frames h' kf) = vp_estimate (poseVertices h' kfVertex))
       \<and> (\<forall>(mptId, mpt, mptVertex) \<in> set (mptIdToMptThenVertex b).
            m_position (mappoints h' mpt) =
              (if m_outlier (mappoints h mpt) then m_position (mappoints h mpt)
               else vm_estimate (mptVertices h' mptVertex)))
       \<and> poseVertices h' = poseVertices h \<and> mptVertices h' = mptVertices h
       \<and> (OptimizeLocalMap solve chi2_of active mm (CleanUp b0) h0 = Inr (b, h)
          \<and> leaves_fixed solve \<and> distinct (map snd (mm_keyframes mm))
          \<longrightarrow> (\<forall>(kfId, kf, kfVertex) \<in> set (kfIdToFixedKfThenVertex b).
                  f_T_c_w (frames h' kf) = vp_estimate (poseVertices h' kfVertex))
              \<and> (\<forall>(edge, kf, mpt) \<in> set (edgeToKfThenMpt b).
                  f_T_c_w (frames h' kf) =
                    vp_estimate (poseVertices h' (e_vertex0 (edges h' edge)))))
       \<and> (OptimizeLocalMap solve chi2_of active mm (CleanUp b0) h0 = Inr (b, h)
          \<and> (\<forall>f. distinct (active f))
          \<longrightarrow> (\<forall>v \<in> set (o_poseVertices (optimizer b)).
                  v \<in> (snd \<circ> snd) ` set (kfIdToCovKfThenVertex b)
                  \<or> v \<in> (\<lambda>(edge, kf, mpt). e_vertex0 (edges h' edge))
                          ` set (edgeToKfThenMpt b)))"
proof -
  let ?h1 = "write_poses (kfIdToCovKfThenVertex b) h"
  from assms(1) have h': "h' = write_positions (mptIdToMptThenVertex b) ?h1"
    by (auto simp: UpdateFrontendTrackingMap_def split: sum.splits)
  have same: "mappoints ?h1 = mappoints h" "mptVertices ?h1 = mptVertices h"
    by (simp_all add: write_poses_keeps)
  have pv: "poseVertices h' = poseVertices h" "mptVertices h' = mptVertices h"
    by (simp_all add: h' write_positions_keeps write_poses_keeps)
  have ed: "edges h' = edges h"
    by (simp add: h' write_positions_keeps write_poses_keeps)
  have poses: "f_T_c_w (frames h' kf) = vp_estimate (poseVertices h' v)"
    if "(i, kf, v) \<in> set (kfIdToCovKfThenVertex b)" for i kf v
    using write_poses_writes [OF assms(2) that, of h]
    by (simp add: pv) (simp add: h' write_positions_keeps)
  have points: "m_position (mappoints h' mpt) =
              (if m_outlier (mappoints h mpt) then m_position (mappoints h mpt)
               else vm_estimate (mptVertices h' v))"
    if "(i, mpt, v) \<in> set (mptIdToMptThenVertex b)" for i mpt v
  proof (cases "m_outlier (mappoints h mpt)")
    case True
    then have "m_outlier (mappoints ?h1 mpt)" by (simp add: same)
    from write_positions_outlier_kept [OF this] True show ?thesis
      by (simp add: h' same)
  next
    case False
    then have "\<not> m_outlier (mappoints ?h1 mpt)" by (simp add: same)
    from write_positions_writes [OF assms(3) that this] False show ?thesis
      by (simp add: pv) (simp add: h' same)
  qed
  have outside: "f_T_c_w (frames h' kf) = vp_estimate (poseVertices h' v)"
    if "pose_held h kf v" "outside_window b kf" for kf v
  proof -
    from that(2) have "frames h' kf = frames h kf"
      by (simp add: h' write_positions_keeps write_poses_frames_other outside_window_def)
    with that(1) show ?thesis by (simp add: pv pose_held_def)
  qed
  have held: "(\<forall>(kfId, kf, kfVertex) \<in> set (kfIdToFixedKfThenVertex b).
                  f_T_c_w (frames h' kf) = vp_estimate (poseVertices h' kfVertex))
              \<and> (\<forall>(edge, kf, mpt) \<in> set (edgeToKfThenMpt b).
                  f_T_c_w (frames h' kf) =
                    vp_estimate (poseVertices h' (e_vertex0 (edges h' edge))))"
    if run: "OptimizeLocalMap solve chi2_of active mm (CleanUp b0) h0 = Inr (b, h)"
      and fixed: "leaves_fixed solve" and inj: "distinct (map snd (mm_keyframes mm))"
  proof -
    from round_pose_inv [OF run fixed inj] obtain vi ei
      where inv: "pose_inv (b, h, vi, ei)" by blast
    have 1: "f_T_c_w (frames h' kf) = vp_estimate (poseVertices h' v)"
      if "(i, kf, v) \<in> set (kfIdToFixedKfThenVertex b)" for i kf v
      using pose_inv_fixed [OF inv that] outside by blast
    have 2: "f_T_c_w (frames h' kf) = vp_estimate (poseVertices h' (e_vertex0 (edges h' e)))"
      if "(e, kf, mpt) \<in> set (edgeToKfThenMpt b)" for e kf mpt
      using pose_inv_edge [OF inv that] outside poses unfolding ed by blast
    from 1 2 show ?thesis by blast
  qed
  have all: "\<forall>v \<in> set (o_poseVertices (optimizer b)).
                  v \<in> (snd \<circ> snd) ` set (kfIdToCovKfThenVertex b)
                  \<or> v \<in> (\<lambda>(edge, kf, mpt). e_vertex0 (edges h' edge))
                          ` set (edgeToKfThenMpt b)"
    if run: "OptimizeLocalMap solve chi2_of active mm (CleanUp b0) h0 = Inr (b, h)"
      and ids: "\<forall>f. distinct (active f)"
  proof -
    from round_covered [OF run ids] obtain vi ei
      where inv: "covered (b, h, vi, ei)" by blast
    have "v \<in> (snd \<circ> snd) ` set (kfIdToCovKfThenVertex b)
             \<or> v \<in> (\<lambda>(edge, kf, mpt). e_vertex0 (edges h' edge)) ` set (edgeToKfThenMpt b)"
      if "v \<in> set (o_poseVertices (optimizer b))" for v
      using covered_vertex [OF inv that] unfolding ed by force
    then show ?thesis by blast
  qed
  show ?thesis using poses points pv held all by auto
qed

theorem handoff_writes_back_witness:
  "distinct (map (fst \<circ> snd) (kfIdToCovKfThenVertex handoff_backend))
   \<and> distinct (map (fst \<circ> snd) (mptIdToMptThenVertex handoff_backend))
   \<and> (case UpdateFrontendTrackingMap handoff_mm handoff_backend current_frontend handoff_store of
        Inl err \<Rightarrow> False
      | Inr (fe', h') \<Rightarrow>
          f_T_c_w (frames h' 11) = SE3 (0, 0, 0, 1) (2, 0, 0)
          \<and> m_position (mappoints h' 31) = (4, 5, 7)
          \<and> m_position (mappoints h' 30) = (1, 2, 3))
   \<and> OptimizeLocalMap window_solver ba_residual (\<lambda>f. []) window_mm (CleanUp window_backend)
        window_store = Inr (window_built, window_round)
   \<and> leaves_fixed window_solver
   \<and> distinct (map snd (mm_keyframes window_mm))
   \<and> (\<forall>f :: Frame. distinct ([] :: size_t list))
   \<and> distinct (map (fst \<circ> snd) (kfIdToCovKfThenVertex window_built))
   \<and> distinct (map (fst \<circ> snd) (mptIdToMptThenVertex window_built))
   \<and> kfIdToCovKfThenVertex window_built = [(1, 11, 1)]
   \<and> kfIdToFixedKfThenVertex window_built = [(2, 12, 3)]
   \<and> edgeToKfThenMpt window_built = [(1, 11, 31), (2, 12, 31)]
   \<and> o_poseVertices (optimizer window_built) = [1, 3]
   \<and> (case UpdateFrontendTrackingMap window_mm window_built current_frontend window_round of
        Inl err \<Rightarrow> False
      | Inr (fe', h') \<Rightarrow>
          f_T_c_w (frames h' 11) = vp_estimate (poseVertices h' 1)
          \<and> vp_estimate (poseVertices h' 1) = SE3 (0, 0, 0, 1) (2, 0, 0)
          \<and> f_T_c_w (frames h' 12) = vp_estimate (poseVertices h' 3)
          \<and> vp_estimate (poseVertices h' 3) = SE3 (0, 0, 0, 1) (5, 0, 0)
          \<and> f_T_c_w (frames h' 12) = vp_estimate (poseVertices h' (e_vertex0 (edges h' 2)))
          \<and> 3 \<in> (\<lambda>(edge, kf, mpt). e_vertex0 (edges h' edge)) ` set (edgeToKfThenMpt window_built))"
proof -
  have first:
    "distinct (map (fst \<circ> snd) (kfIdToCovKfThenVertex handoff_backend))
     \<and> distinct (map (fst \<circ> snd) (mptIdToMptThenVertex handoff_backend))
     \<and> (case UpdateFrontendTrackingMap handoff_mm handoff_backend current_frontend handoff_store of
          Inl err \<Rightarrow> False
        | Inr (fe', h') \<Rightarrow>
            f_T_c_w (frames h' 11) = SE3 (0, 0, 0, 1) (2, 0, 0)
            \<and> m_position (mappoints h' 31) = (4, 5, 7)
            \<and> m_position (mappoints h' 30) = (1, 2, 3))"
    using handoff_writes_back [of handoff_mm handoff_backend current_frontend handoff_store]
    by (simp add: handoff_eval)
  have maps: "kfIdToCovKfThenVertex window_built = [(1, 11, 1)]"
    "kfIdToFixedKfThenVertex window_built = [(2, 12, 3)]"
    "mptIdToMptThenVertex window_built = [(6, 31, 2)]"
    "edgeToKfThenMpt window_built = [(1, 11, 31), (2, 12, 31)]"
    "o_poseVertices (optimizer window_built) = [1, 3]"
    by (simp_all add: window_built_def)
  have inj: "distinct (map snd (mm_keyframes window_mm))"
    by (simp add: window_mm_def)
  obtain fe' h' where hand:
    "UpdateFrontendTrackingMap window_mm window_built current_frontend window_round
       = Inr (fe', h')"
    by (simp add: UpdateFrontendTrackingMap_def needs_reset_def current_frontend_def
        window_built_def)
  from handoff_writes_back [OF hand, where solve = window_solver and chi2_of = ba_residual
      and active = "\<lambda>f. []" and ?b0.0 = window_backend and ?h0.0 = window_store]
    OptimizeLocalMap_window leaves_fixed_window inj
  have "f_T_c_w (frames h' 11) = vp_estimate (poseVertices h' 1)"
    "f_T_c_w (frames h' 12) = vp_estimate (poseVertices h' 3)"
    "f_T_c_w (frames h' 12) = vp_estimate (poseVertices h' (e_vertex0 (edges h' 2)))"
    "3 \<in> (\<lambda>(edge, kf, mpt). e_vertex0 (edges h' edge)) ` set (edgeToKfThenMpt window_built)"
    "poseVertices h' = poseVertices window_round"
    by (auto simp add: maps)
  with first OptimizeLocalMap_window leaves_fixed_window inj show ?thesis
    by (simp add: hand maps window_round_estimates)
qed

text \<open>
  C3 as stated fails for a mappoint that has a vertex and is an outlier at the time of
  the handoff: line 375 skips it, so its position is not the vertex's estimate.  (A
  mappoint becomes an outlier after its vertex is made when a sweep removes its last
  observation; \<open>outlier_with_vertex_reachable\<close> above runs such a round.)
\<close>

theorem outlier_position_counterexample:
  "(30, 2) \<in> snd ` set (mptIdToMptThenVertex handoff_backend)
   \<and> (case UpdateFrontendTrackingMap handoff_mm handoff_backend stale_frontend handoff_store of
        Inl err \<Rightarrow> False
      | Inr (fe', h') \<Rightarrow>
          vm_estimate (mptVertices h' 2) = (7, 8, 9)
          \<and> m_position (mappoints h' 30) = (1, 2, 3))"
  by (simp add: handoff_eval)

section \<open>The fuse step keeps the earliest smallest-distance candidate\<close>

lemma keep_all_Nil: "keep_all [] m = m"
  by (simp add: keep_all_def)

lemma keep_all_snoc: "keep_all (cs @ [(k, v, d)]) m = keep_or_assign k v d (keep_all cs m)"
  by (simp add: keep_all_def)

lemma keep_all_Cons: "keep_all ((k, v, d) # cs) m = keep_all cs (keep_or_assign k v d m)"
  by (simp add: keep_all_def)

lemma keep_all_append: "keep_all (cs @ ds) m = keep_all ds (keep_all cs m)"
  by (simp add: keep_all_def)

lemma map_of_keep_or_assign:
  "map_of (keep_or_assign k v d m) k' =
     (if k' = k
      then (case map_of m k of
              Some (v0, d0) \<Rightarrow> if d \<ge> d0 then Some (v0, d0) else Some (v, d)
            | None \<Rightarrow> Some (v, d))
      else map_of m k')"
  by (auto simp add: keep_or_assign_def update_conv' split: option.splits)

lemma distinct_keep_or_assign:
  "distinct (map fst m) \<Longrightarrow> distinct (map fst (keep_or_assign k v d m))"
  by (auto simp add: keep_or_assign_def distinct_update split: option.splits)

lemma distinct_keep_all: "distinct (map fst m) \<Longrightarrow> distinct (map fst (keep_all cs m))"
  by (induction cs arbitrary: m) (auto simp add: keep_all_Nil keep_all_Cons distinct_keep_or_assign)

lemma earliest_smallest_other:
  assumes "earliest_smallest cs k vd" and "k' \<noteq> k"
  shows "earliest_smallest (cs @ [(k', v', d')]) k vd"
proof -
  from assms(1) obtain i where i: "i < length cs" "cs ! i = (k, vd)"
    and le: "\<forall>j < length cs. fst (cs ! j) = k \<longrightarrow> snd vd \<le> snd (snd (cs ! j))"
    and lt: "\<forall>j < i. fst (cs ! j) = k \<longrightarrow> snd vd < snd (snd (cs ! j))"
    unfolding earliest_smallest_def by blast
  have "\<forall>j < length (cs @ [(k', v', d')]).
          fst ((cs @ [(k', v', d')]) ! j) = k \<longrightarrow> snd vd \<le> snd (snd ((cs @ [(k', v', d')]) ! j))"
    using le assms(2) by (auto simp add: nth_append less_Suc_eq)
  moreover have "\<forall>j < i. fst ((cs @ [(k', v', d')]) ! j) = k
                   \<longrightarrow> snd vd < snd (snd ((cs @ [(k', v', d')]) ! j))"
    using lt i(1) by (auto simp add: nth_append)
  moreover have "(cs @ [(k', v', d')]) ! i = (k, vd)" "i < length (cs @ [(k', v', d')])"
    using i by (auto simp add: nth_append)
  ultimately show ?thesis unfolding earliest_smallest_def by blast
qed

lemma earliest_smallest_kept:
  assumes "earliest_smallest cs k (v0, d0)" and "d0 \<le> d'"
  shows "earliest_smallest (cs @ [(k, v', d')]) k (v0, d0)"
proof -
  from assms(1) obtain i where i: "i < length cs" "cs ! i = (k, v0, d0)"
    and le: "\<forall>j < length cs. fst (cs ! j) = k \<longrightarrow> d0 \<le> snd (snd (cs ! j))"
    and lt: "\<forall>j < i. fst (cs ! j) = k \<longrightarrow> d0 < snd (snd (cs ! j))"
    unfolding earliest_smallest_def by auto
  have "\<forall>j < length (cs @ [(k, v', d')]).
          fst ((cs @ [(k, v', d')]) ! j) = k \<longrightarrow> d0 \<le> snd (snd ((cs @ [(k, v', d')]) ! j))"
    using le assms(2) by (auto simp add: nth_append less_Suc_eq)
  moreover have "\<forall>j < i. fst ((cs @ [(k, v', d')]) ! j) = k
                   \<longrightarrow> d0 < snd (snd ((cs @ [(k, v', d')]) ! j))"
    using lt i(1) by (auto simp add: nth_append)
  moreover have "(cs @ [(k, v', d')]) ! i = (k, v0, d0)" "i < length (cs @ [(k, v', d')])"
    using i by (auto simp add: nth_append)
  ultimately show ?thesis unfolding earliest_smallest_def by auto
qed

lemma earliest_smallest_new:
  assumes "\<forall>j < length cs. fst (cs ! j) = k \<longrightarrow> d' < snd (snd (cs ! j))"
  shows "earliest_smallest (cs @ [(k, v', d')]) k (v', d')"
proof -
  have "\<forall>j < length (cs @ [(k, v', d')]).
          fst ((cs @ [(k, v', d')]) ! j) = k \<longrightarrow> d' \<le> snd (snd ((cs @ [(k, v', d')]) ! j))"
    using assms by (auto simp add: nth_append less_Suc_eq less_imp_le)
  moreover have "\<forall>j < length cs. fst ((cs @ [(k, v', d')]) ! j) = k
                   \<longrightarrow> d' < snd (snd ((cs @ [(k, v', d')]) ! j))"
    using assms by (auto simp add: nth_append)
  moreover have "(cs @ [(k, v', d')]) ! length cs = (k, v', d')"
    "length cs < length (cs @ [(k, v', d')])"
    by auto
  ultimately show ?thesis unfolding earliest_smallest_def
    by (intro exI [of _ "length cs"]) auto
qed

lemma keep_all_spec_step:
  assumes IH: "case map_of (keep_all cs []) k of
                 None \<Rightarrow> k \<notin> fst ` set cs
               | Some vd \<Rightarrow> earliest_smallest cs k vd"
  shows "case map_of (keep_all (cs @ [(k', v', d')]) []) k of
           None \<Rightarrow> k \<notin> fst ` set (cs @ [(k', v', d')])
         | Some vd \<Rightarrow> earliest_smallest (cs @ [(k', v', d')]) k vd"
proof -
  let ?m = "keep_all cs []"
  show ?thesis
  proof (cases "k = k'")
    case False
    then have same: "map_of (keep_all (cs @ [(k', v', d')]) []) k = map_of ?m k"
      by (simp add: keep_all_snoc map_of_keep_or_assign)
    show ?thesis
    proof (cases "map_of ?m k")
      case None
      with IH False show ?thesis by (simp add: same)
    next
      case (Some vd)
      with IH have "earliest_smallest cs k vd" by simp
      then have "earliest_smallest (cs @ [(k', v', d')]) k vd"
        using False by (intro earliest_smallest_other) auto
      with Some show ?thesis by (simp add: same)
    qed
  next
    case True
    show ?thesis
    proof (cases "map_of ?m k")
      case None
      with IH have "k \<notin> fst ` set cs" by simp
      then have "\<forall>j < length cs. fst (cs ! j) = k \<longrightarrow> d' < snd (snd (cs ! j))"
        by (metis image_eqI nth_mem)
      then have "earliest_smallest (cs @ [(k, v', d')]) k (v', d')"
        by (rule earliest_smallest_new)
      with None True show ?thesis
        by (simp add: keep_all_snoc map_of_keep_or_assign)
    next
      case (Some vd)
      obtain v0 d0 where vd: "vd = (v0, d0)" by (cases vd)
      from IH Some vd have es: "earliest_smallest cs k (v0, d0)" by simp
      show ?thesis
      proof (cases "d' \<ge> d0")
        case ge: True
        from earliest_smallest_kept [OF es ge] Some vd True ge show ?thesis
          by (simp add: keep_all_snoc map_of_keep_or_assign)
      next
        case lt: False
        from es have "\<forall>j < length cs. fst (cs ! j) = k \<longrightarrow> d0 \<le> snd (snd (cs ! j))"
          unfolding earliest_smallest_def by auto
        with lt have "\<forall>j < length cs. fst (cs ! j) = k \<longrightarrow> d' < snd (snd (cs ! j))"
          by force
        then have "earliest_smallest (cs @ [(k, v', d')]) k (v', d')"
          by (rule earliest_smallest_new)
        with Some vd True lt show ?thesis
          by (simp add: keep_all_snoc map_of_keep_or_assign)
      qed
    qed
  qed
qed

lemma keep_all_spec:
  "(case map_of (keep_all cs []) k of
      None \<Rightarrow> k \<notin> fst ` set cs
    | Some vd \<Rightarrow> earliest_smallest cs k vd)"
proof (induction cs rule: rev_induct)
  case Nil
  show ?case by (simp add: keep_all_Nil)
next
  case (snoc c cs)
  obtain k' v' d' where c: "c = (k', v', d')" by (cases c)
  show ?case unfolding c using snoc.IH by (rule keep_all_spec_step)
qed

lemma keep_all_entry:
  "(k, vd) \<in> set (keep_all cs []) \<longleftrightarrow> map_of (keep_all cs []) k = Some vd"
  using distinct_keep_all [of "[]" cs] by simp

text \<open>The loops of lines 113-143 apply the candidates in the order of \<open>old_candidates\<close> and \<open>kpt_candidates\<close>.\<close>

lemma fuse_mpt_candidates:
  "fuse_mpt M r h kf mpt (om, km) =
     (case old_candidate M r h kf mpt of
        None \<Rightarrow> om | Some (k, v, d) \<Rightarrow> keep_or_assign k v d om,
      case kpt_candidate M r h kf mpt of
        None \<Rightarrow> km | Some (k, v, d) \<Rightarrow> keep_or_assign k v d km)"
  by (simp add: fuse_mpt_def old_candidate_def kpt_candidate_def split: option.splits)

lemma fold_fuse_mpt:
  "fold (fuse_mpt M r h kf) mpts (om, km) =
     (keep_all (List.map_filter (old_candidate M r h kf) mpts) om,
      keep_all (List.map_filter (kpt_candidate M r h kf) mpts) km)"
proof (induction mpts arbitrary: om km)
  case Nil
  show ?case by (simp add: map_filter_simps keep_all_Nil)
next
  case (Cons mpt mpts)
  show ?case
    by (simp add: fuse_mpt_candidates Cons.IH map_filter_simps keep_all_Cons
        split: option.splits)
qed

lemma fuse_keyframe_candidates:
  "fuse_keyframe M r h mpts kf (om, obs) =
     (keep_all (List.map_filter (old_candidate M r h kf) mpts) om,
      obs @ map (\<lambda>(kptIdx, mpt, d). (kf, mpt, kptIdx))
              (keep_all (List.map_filter (kpt_candidate M r h kf) mpts) []))"
  by (simp add: fuse_keyframe_def fold_fuse_mpt)

lemma fold_fuse_keyframe:
  "fold (fuse_keyframe M r h mpts) kfs (om, obs) =
     (keep_all (concat (map (\<lambda>kf. List.map_filter (old_candidate M r h kf) mpts) kfs)) om,
      obs @ concat (map (\<lambda>kf. map (\<lambda>(kptIdx, mpt, d). (kf, mpt, kptIdx))
                                (keep_all (List.map_filter (kpt_candidate M r h kf) mpts) []))
                       kfs))"
proof (induction kfs arbitrary: om obs)
  case Nil
  show ?case by (simp add: keep_all_Nil)
next
  case (Cons kf kfs)
  show ?case
    by (simp add: fuse_keyframe_candidates Cons.IH keep_all_append)
qed

lemma fuse_collect_eq:
  "fuse_collect M b h kfs =
     (keep_all (old_candidates M b h kfs) [],
      concat (map (\<lambda>kf. map (\<lambda>(kptIdx, mpt, d). (kf, mpt, kptIdx))
                          (keep_all (kpt_candidates M b h kf) [])) kfs))"
  by (simp add: fuse_collect_def fold_fuse_keyframe old_candidates_def kpt_candidates_def)

text \<open>
  C7.  After the collecting loops, for any list of candidate keyframes: an old mappoint id
  has a recorded replacement exactly when some candidate names it, and the recorded pair is
  the candidate of smallest distance over all keyframes and new mappoints, the earliest
  one met among those of equal distance; and the observations to add for a keyframe are,
  for each previously unmatched keypoint with a candidate, the new mappoint of smallest
  distance at that keyframe, again the earliest one met among equals.
\<close>

theorem fuse_keeps_earliest_smallest:
  "(\<forall>oldMptId.
      case map_of (fst (fuse_collect M b h kfs)) oldMptId of
        None \<Rightarrow> oldMptId \<notin> fst ` set (old_candidates M b h kfs)
      | Some nd \<Rightarrow> earliest_smallest (old_candidates M b h kfs) oldMptId nd)
   \<and> (\<forall>(kf, mpt, kptIdx) \<in> set (snd (fuse_collect M b h kfs)).
        kf \<in> set kfs
        \<and> (\<exists>d. earliest_smallest (kpt_candidates M b h kf) kptIdx (mpt, d)))
   \<and> (\<forall>kf \<in> set kfs. \<forall>kptIdx \<in> fst ` set (kpt_candidates M b h kf).
        \<exists>mpt. (kf, mpt, kptIdx) \<in> set (snd (fuse_collect M b h kfs)))"
proof (intro conjI allI ballI)
  fix oldMptId
  show "case map_of (fst (fuse_collect M b h kfs)) oldMptId of
          None \<Rightarrow> oldMptId \<notin> fst ` set (old_candidates M b h kfs)
        | Some nd \<Rightarrow> earliest_smallest (old_candidates M b h kfs) oldMptId nd"
    by (simp add: fuse_collect_eq keep_all_spec)
next
  fix x assume x: "x \<in> set (snd (fuse_collect M b h kfs))"
  obtain kf mpt kptIdx where xe: "x = (kf, mpt, kptIdx)" by (cases x)
  from x xe obtain d where kf: "kf \<in> set kfs"
    and "(kptIdx, mpt, d) \<in> set (keep_all (kpt_candidates M b h kf) [])"
    by (auto simp add: fuse_collect_eq)
  then have "map_of (keep_all (kpt_candidates M b h kf) []) kptIdx = Some (mpt, d)"
    by (simp add: keep_all_entry)
  with keep_all_spec [where cs = "kpt_candidates M b h kf" and k = kptIdx]
  have "earliest_smallest (kpt_candidates M b h kf) kptIdx (mpt, d)" by simp
  with kf show "case x of (kf, mpt, kptIdx) \<Rightarrow>
                  kf \<in> set kfs \<and> (\<exists>d. earliest_smallest (kpt_candidates M b h kf) kptIdx (mpt, d))"
    by (auto simp add: xe)
next
  fix kf kptIdx
  assume kf: "kf \<in> set kfs" and k: "kptIdx \<in> fst ` set (kpt_candidates M b h kf)"
  from k keep_all_spec [where cs = "kpt_candidates M b h kf" and k = kptIdx]
  obtain mpt d where "map_of (keep_all (kpt_candidates M b h kf) []) kptIdx = Some (mpt, d)"
    by (cases "map_of (keep_all (kpt_candidates M b h kf) []) kptIdx") auto
  then have "(kptIdx, mpt, d) \<in> set (keep_all (kpt_candidates M b h kf) [])"
    by (simp add: keep_all_entry)
  with kf have "(kf, mpt, kptIdx) \<in> set (snd (fuse_collect M b h kfs))"
    by (force simp add: fuse_collect_eq)
  then show "\<exists>mpt. (kf, mpt, kptIdx) \<in> set (snd (fuse_collect M b h kfs))" ..
qed

lemmas fuse_eval = fuse_collect_def fuse_keyframe_def fuse_mpt_def keep_or_assign_def
  IsKeypointMatchWithMappoint_def old_candidates_def kpt_candidates_def old_candidate_def
  kpt_candidate_def fuse_store_def fuse_backend_def fuse_matcher_def
  blank_store_def blank_frame_def blank_mappoint_def Backend_init_def

theorem fuse_keeps_earliest_smallest_witness:
  "old_candidates fuse_matcher fuse_backend fuse_store [10, 12]
     = [(5, 7, 30), (5, 8, 20), (5, 7, 20)]
   \<and> kpt_candidates fuse_matcher fuse_backend fuse_store 10 = [(4, 42, 25)]
   \<and> kpt_candidates fuse_matcher fuse_backend fuse_store 12 = []
   \<and> fuse_collect fuse_matcher fuse_backend fuse_store [10, 12]
       = ([(5, 8, 20)], [(10, 42, 4)])
   \<and> earliest_smallest (old_candidates fuse_matcher fuse_backend fuse_store [10, 12]) 5 (8, 20)
   \<and> earliest_smallest (kpt_candidates fuse_matcher fuse_backend fuse_store 10) 4 (42, 25)"
proof -
  have run: "fuse_collect fuse_matcher fuse_backend fuse_store [10, 12]
       = ([(5, 8, 20)], [(10, 42, 4)])"
    by (simp add: fuse_eval)
  have cands: "old_candidates fuse_matcher fuse_backend fuse_store [10, 12]
     = [(5, 7, 30), (5, 8, 20), (5, 7, 20)]"
    "kpt_candidates fuse_matcher fuse_backend fuse_store 10 = [(4, 42, 25)]"
    "kpt_candidates fuse_matcher fuse_backend fuse_store 12 = []"
    by (simp_all add: fuse_eval)
  note inst = fuse_keeps_earliest_smallest [of fuse_matcher fuse_backend fuse_store "[10, 12]"]
  from inst have
    "case map_of (fst (fuse_collect fuse_matcher fuse_backend fuse_store [10, 12])) 5 of
       None \<Rightarrow> 5 \<notin> fst ` set (old_candidates fuse_matcher fuse_backend fuse_store [10, 12])
     | Some nd \<Rightarrow>
         earliest_smallest (old_candidates fuse_matcher fuse_backend fuse_store [10, 12]) 5 nd"
    by blast
  then have old: "earliest_smallest
      (old_candidates fuse_matcher fuse_backend fuse_store [10, 12]) 5 (8, 20)"
    by (simp add: run)
  from inst have "\<forall>(kf, mpt, kptIdx) \<in> set [(10 :: nat, 42 :: nat, 4 :: size_t)].
        \<exists>d. earliest_smallest (kpt_candidates fuse_matcher fuse_backend fuse_store kf) kptIdx (mpt, d)"
    unfolding run by auto
  then obtain d where d: "earliest_smallest
      (kpt_candidates fuse_matcher fuse_backend fuse_store 10) 4 (42, d)"
    by auto
  then have "d = 25"
    by (auto simp add: earliest_smallest_def cands)
  with d old run cands show ?thesis by simp
qed

end
